theory Spec2Isabelle
  imports Main "HOL-Library.AList"
begin

section \<open>Strings: \<open>split('\n')\<close>, \<open>trim()\<close>, \<open>pop()\<close>, \<open>slice()\<close>\<close>

text \<open>
  A file content and a decoded chunk are both a \<open>string\<close>: one \<open>char\<close> stands for one
  byte of the file and for one code unit of the decoded text, which agree for the
  ASCII logs that the engine tails, so that the length of a content is the size that
  \<open>stat\<close> reports. The line terminator of both readers is the single character
  \<open>'\n'\<close> (0x0A); a carriage return is ordinary line content, which \<open>trim\<close> removes
  only when the readers decide whether a line is blank.
\<close>

type_synonym path = string

text \<open>
  \<open>s.split('\n')\<close>: the fragments between the terminators, in order. The result is
  never empty: a string without terminator is its only fragment, and a string that
  ends with a terminator has the empty string as last fragment.
\<close>

fun split_nl :: "string \<Rightarrow> string list" where
  "split_nl [] = [[]]"
| "split_nl (c # cs) =
     (if c = CHR 0x0A then [] # split_nl cs
      else (c # hd (split_nl cs)) # tl (split_nl cs))"

text \<open>
  The white space and line terminator code units below 256 that
  \<open>String.prototype.trim\<close> strips: TAB, LF, VT, FF, CR, SP and NBSP.
\<close>

definition is_white_space :: "char \<Rightarrow> bool" where
  "is_white_space c \<longleftrightarrow>
     c \<in> set [CHR 0x09, CHR 0x0A, CHR 0x0B, CHR 0x0C, CHR 0x0D, CHR 0x20, CHR 0xA0]"

definition trim :: "string \<Rightarrow> string" where
  "trim s = rev (dropWhile is_white_space (rev (dropWhile is_white_space s)))"

text \<open>A string in a condition (\<open>if (line.trim())\<close>) is true when it is not empty.\<close>

definition truthy :: "string \<Rightarrow> bool" where
  "truthy s \<longleftrightarrow> s \<noteq> []"

text \<open>
  \<open>lines.pop()\<close> removes and returns the last element; on an empty array it returns
  \<open>undefined\<close> (here \<open>None\<close>) and leaves the array empty.
\<close>

definition pop :: "'a list \<Rightarrow> 'a option \<times> 'a list" where
  "pop xs = (if xs = [] then (None, []) else (Some (last xs), butlast xs))"

text \<open>\<open>x || ''\<close> for \<open>x\<close> a string or \<open>undefined\<close>.\<close>

fun or_empty :: "string option \<Rightarrow> string" where
  "or_empty None = []"
| "or_empty (Some s) = (if truthy s then s else [])"

text \<open>
  \<open>xs.slice(k)\<close> with one argument: a negative \<open>k\<close> counts from the end, and both
  ends are clamped to the array.
\<close>

definition slice :: "'a list \<Rightarrow> int \<Rightarrow> 'a list" where
  "slice xs k =
     (let len = int (length xs);
          from = (if k < 0 then max (len + k) 0 else min k len)
      in drop (nat from) xs)"

section \<open>The data handler's line splitting\<close>

text \<open>
  The first three statements of the \<open>'data'\<close> handler, the same in \<open>tail.ts\<close> and
  \<open>watcher.ts\<close>:
  \<^verbatim>\<open>buffer += chunk; const lines = buffer.split('\n'); buffer = lines.pop() || '';\<close>
  The result is the array \<open>lines\<close> after the pop and the new \<open>buffer\<close>.
\<close>

definition split_step :: "string \<Rightarrow> string \<Rightarrow> string list \<times> string" where
  "split_step buffer chunk =
     (let buffer1 = buffer @ chunk;
          lines = split_nl buffer1;
          (popped, lines1) = pop lines
      in (lines1, or_empty popped))"

text \<open>
  The splitting step over the chunks of one stream, the buffer threaded from each
  call to the next; the complete lines of all calls are collected in order.
\<close>

fun split_chunks :: "string \<Rightarrow> string list \<Rightarrow> string list \<times> string" where
  "split_chunks buffer [] = ([], buffer)"
| "split_chunks buffer (chunk # chunks) =
     (let (lines, buffer1) = split_step buffer chunk;
          (more, buffer2) = split_chunks buffer1 chunks
      in (lines @ more, buffer2))"

section \<open>File system and read streams\<close>

text \<open>
  The file system is what \<open>fs.statSync\<close>, \<open>fs.existsSync\<close> and
  \<open>fs.createReadStream\<close> observe of it: each path either holds a content or makes
  \<open>stat\<close> fail with an error code. Time stamps (\<open>new Date()\<close>) are left out of
  the events.
\<close>

datatype errcode = ENOENT | EACCES | EIO | ERR_OUT_OF_RANGE

datatype error = FileNotFound path | SystemError errcode

text \<open>\<open>error.code\<close>: an \<open>Error\<close> made by \<open>new Error(msg)\<close> has none.\<close>

fun error_code :: "error \<Rightarrow> errcode option" where
  "error_code (FileNotFound p) = None"
| "error_code (SystemError c) = Some c"

type_synonym fs = "path \<Rightarrow> errcode + string"

definition statSync :: "fs \<Rightarrow> path \<Rightarrow> error + nat" where
  "statSync fs p = (case fs p of Inl c \<Rightarrow> Inl (SystemError c) | Inr content \<Rightarrow> Inr (length content))"

definition existsSync :: "fs \<Rightarrow> path \<Rightarrow> bool" where
  "existsSync fs p = (case fs p of Inl c \<Rightarrow> False | Inr content \<Rightarrow> True)"

text \<open>
  The options of a read stream: \<open>start\<close> and an inclusive \<open>end\<close>, which is absent
  (\<open>None\<close>) when the stream reads to the end of the file.
\<close>

record read_request =
  rpath :: path
  rstart :: int
  rend :: "int option"

text \<open>
  \<open>fs.createReadStream(path, {start, end})\<close> checks its options when it is called:
  \<open>start\<close> and \<open>end\<close> must not be negative and \<open>start\<close> must not exceed \<open>end\<close>;
  otherwise it throws a \<open>RangeError\<close> with code \<open>ERR_OUT_OF_RANGE\<close>.
\<close>

definition createReadStream :: "path \<Rightarrow> int \<Rightarrow> int option \<Rightarrow> error + read_request" where
  "createReadStream p start end' =
     (if start < 0 then Inl (SystemError ERR_OUT_OF_RANGE)
      else case end' of
             None \<Rightarrow> Inr \<lparr>rpath = p, rstart = start, rend = None\<rparr>
           | Some e \<Rightarrow>
               if e < 0 \<or> start > e then Inl (SystemError ERR_OUT_OF_RANGE)
               else Inr \<lparr>rpath = p, rstart = start, rend = Some e\<rparr>)"

text \<open>The bytes of a content that a request covers.\<close>

definition range_bytes :: "string \<Rightarrow> read_request \<Rightarrow> string" where
  "range_bytes content rd =
     (let from = drop (nat (rstart rd)) content
      in case rend rd of None \<Rightarrow> from | Some e \<Rightarrow> take (nat (e + 1 - rstart rd)) from)"

text \<open>
  What a stream does once it runs: it delivers chunks to the \<open>'data'\<close> handler and
  then either ends or fails. The environment decides the chunking and the outcome, so
  it is a parameter: \<open>io\<close> gives the run of each request.
\<close>

datatype stream_end = End | Failed errcode

type_synonym stream_run = "string list \<times> stream_end"

type_synonym io = "read_request \<Rightarrow> stream_run"

text \<open>A run that delivers exactly the requested bytes of the file, in any chunking.\<close>

definition delivers :: "fs \<Rightarrow> read_request \<Rightarrow> stream_run \<Rightarrow> bool" where
  "delivers fs rd run =
     (case fs (rpath rd) of
        Inl c \<Rightarrow> False
      | Inr content \<Rightarrow> concat (fst run) = range_bytes content rd \<and> snd run = End)"

section \<open>\<open>tail.ts\<close>: the polling tailer\<close>

datatype tail_event = Line path string nat | Error error | FileRemoved path

text \<open>
  The tailer's \<open>files\<close> is a \<open>Map\<close> from path to position; the association list
  keeps its insertion order, which is the order of the polling loop and of
  \<open>getFiles\<close>. The poll timer itself is not part of the state.
\<close>

record tailer =
  files :: "(path \<times> nat) list"
  following :: bool

text \<open>
  The loop of the \<open>'data'\<close> handler over \<open>lines\<close>: a line whose trimmed text is not
  empty is emitted with the next line number.
\<close>

fun emit_lines :: "path \<Rightarrow> nat \<Rightarrow> string list \<Rightarrow> tail_event list \<times> nat" where
  "emit_lines filePath lineNumber [] = ([], lineNumber)"
| "emit_lines filePath lineNumber (line # lines) =
     (if truthy (trim line)
      then (let (events, n) = emit_lines filePath (lineNumber + 1) lines
            in (Line filePath line (lineNumber + 1) # events, n))
      else emit_lines filePath lineNumber lines)"

definition on_data :: "path \<Rightarrow> string \<times> nat \<Rightarrow> string \<Rightarrow> tail_event list \<times> (string \<times> nat)" where
  "on_data filePath st chunk =
     (let (buffer, lineNumber) = st;
          (lines, buffer1) = split_step buffer chunk;
          (events, lineNumber1) = emit_lines filePath lineNumber lines
      in (events, (buffer1, lineNumber1)))"

definition on_end :: "path \<Rightarrow> string \<times> nat \<Rightarrow> tail_event list" where
  "on_end filePath st =
     (let (buffer, lineNumber) = st
      in if truthy (trim buffer) then [Line filePath buffer (lineNumber + 1)] else [])"

definition on_error :: "errcode \<Rightarrow> tail_event list" where
  "on_error c = [Error (SystemError c)]"

text \<open>The handlers of one stream, run over its chunks and its outcome.\<close>

fun run_stream :: "path \<Rightarrow> string \<times> nat \<Rightarrow> string list \<Rightarrow> stream_end \<Rightarrow> tail_event list" where
  "run_stream filePath st [] End = on_end filePath st"
| "run_stream filePath st [] (Failed c) = on_error c"
| "run_stream filePath st (chunk # chunks) fin =
     (let (events, st1) = on_data filePath st chunk
      in events @ run_stream filePath st1 chunks fin)"

text \<open>
  \<open>readNewContent(filePath, start, end)\<close> creates the stream for the bytes from
  \<open>start\<close> to \<open>end - 1\<close> and registers the handlers, with \<open>buffer = ''\<close> and
  \<open>lineNumber = 0\<close>; the events come when the stream runs.
\<close>

definition readNewContent :: "path \<Rightarrow> nat \<Rightarrow> nat \<Rightarrow> error + read_request" where
  "readNewContent filePath start end' =
     createReadStream filePath (int start) (Some (int end' - 1))"

definition readNewContent_events :: "path \<Rightarrow> stream_run \<Rightarrow> tail_event list" where
  "readNewContent_events filePath run = run_stream filePath ([], 0) (fst run) (snd run)"

text \<open>The \<open>catch\<close> block of the polling loop.\<close>

definition check_catch :: "tailer \<Rightarrow> path \<Rightarrow> error \<Rightarrow> tailer \<times> tail_event list \<times> read_request list" where
  "check_catch st filePath e =
     (if error_code e = Some ENOENT
      then (st\<lparr>files := AList.delete filePath (files st)\<rparr>, [FileRemoved filePath], [])
      else (st, [Error e], []))"

text \<open>
  The body of the loop of \<open>checkForNewContent\<close> for one entry of \<open>files\<close>. It returns
  the new state, the events emitted at once and the streams it has created. The loop
  runs over the entries as they are when it starts: the body changes the map only at
  the key of its own entry, which a \<open>Map\<close> iterator visits once, so the live
  iteration of the source sees the same entries.
\<close>

definition check_entry :: "fs \<Rightarrow> tailer \<Rightarrow> path \<times> nat \<Rightarrow> tailer \<times> tail_event list \<times> read_request list" where
  "check_entry fs st entry =
     (let (filePath, lastPosition) = entry
      in case statSync fs filePath of
           Inl e \<Rightarrow> check_catch st filePath e
         | Inr currentSize \<Rightarrow>
             if currentSize < lastPosition then
               (let st1 = st\<lparr>files := AList.update filePath 0 (files st)\<rparr>
                in case readNewContent filePath 0 currentSize of
                     Inl e \<Rightarrow> check_catch st1 filePath e
                   | Inr rd \<Rightarrow> (st1, [], [rd]))
             else if currentSize > lastPosition then
               (case readNewContent filePath lastPosition currentSize of
                  Inl e \<Rightarrow> check_catch st filePath e
                | Inr rd \<Rightarrow> (st\<lparr>files := AList.update filePath currentSize (files st)\<rparr>, [], [rd]))
             else (st, [], []))"

fun check_entries :: "fs \<Rightarrow> (path \<times> nat) list \<Rightarrow> tailer \<Rightarrow> tailer \<times> tail_event list \<times> read_request list" where
  "check_entries fs [] st = (st, [], [])"
| "check_entries fs (entry # entries) st =
     (let (st1, events1, reads1) = check_entry fs st entry;
          (st2, events2, reads2) = check_entries fs entries st1
      in (st2, events1 @ events2, reads1 @ reads2))"

definition checkForNewContent :: "fs \<Rightarrow> tailer \<Rightarrow> tailer \<times> tail_event list \<times> read_request list" where
  "checkForNewContent fs st = check_entries fs (files st) st"

text \<open>
  One tick of the poller with its streams run to their end before the next tick, each
  stream as \<open>io\<close> says.
\<close>

definition poll :: "fs \<Rightarrow> io \<Rightarrow> tailer \<Rightarrow> tailer \<times> tail_event list" where
  "poll fs io st =
     (let (st1, events, reads) = checkForNewContent fs st
      in (st1, events @ concat (map (\<lambda>rd. readNewContent_events (rpath rd) (io rd)) reads)))"

text \<open>
  \<open>readLastLines\<close>: the promise resolves with the lines (\<open>Inr\<close>) or rejects (\<open>Inl\<close>).
  \<open>numLines\<close> is the integer that the command line parsed.
\<close>

definition readLastLines :: "fs \<Rightarrow> io \<Rightarrow> path \<Rightarrow> int \<Rightarrow> error + string list" where
  "readLastLines fs io filePath numLines =
     (case statSync fs filePath of
        Inl e \<Rightarrow> Inl e
      | Inr fileSize \<Rightarrow>
          if fileSize = 0 then Inr []
          else
            (let estimatedBytes = min (numLines * 120) (int fileSize);
                 start = max 0 (int fileSize - estimatedBytes)
             in case createReadStream filePath start None of
                  Inl e \<Rightarrow> Inl e
                | Inr rd \<Rightarrow>
                    (case io rd of
                       (chunks, Failed c) \<Rightarrow> Inl (SystemError c)
                     | (chunks, End) \<Rightarrow>
                         (let buffer = concat chunks;
                              lines = filter (\<lambda>line. trim line \<noteq> []) (split_nl buffer);
                              lastLines = slice lines (- numLines)
                          in Inr lastLines))))"

text \<open>The initial line events of \<open>tail\<close>: line \<open>i\<close> gets the number \<open>i + 1\<close>.\<close>

definition initial_events :: "path \<Rightarrow> string list \<Rightarrow> tail_event list" where
  "initial_events absolutePath lastLines =
     map (\<lambda>i. Line absolutePath (lastLines ! i) (i + 1)) [0 ..< length lastLines]"

text \<open>
  \<open>tail(filePath, {lines, follow})\<close>; \<open>resolve\<close> is \<open>path.resolve\<close>. The result is
  the outcome of the promise, the new state and the events emitted.
\<close>

definition tail :: "(path \<Rightarrow> path) \<Rightarrow> fs \<Rightarrow> io \<Rightarrow> tailer \<Rightarrow> path \<Rightarrow> int \<Rightarrow> bool
    \<Rightarrow> (error + unit) \<times> tailer \<times> tail_event list" where
  "tail resolve fs io st filePath lines follow =
     (let absolutePath = resolve filePath
      in if \<not> existsSync fs absolutePath
         then (Inl (FileNotFound absolutePath), st, [Error (FileNotFound absolutePath)])
         else case readLastLines fs io absolutePath lines of
                Inl e \<Rightarrow> (Inl e, st, [Error e])
              | Inr lastLines \<Rightarrow>
                  (let events = initial_events absolutePath lastLines
                   in case statSync fs absolutePath of
                        Inl e \<Rightarrow> (Inl e, st, events @ [Error e])
                      | Inr size' \<Rightarrow>
                          (let st1 = st\<lparr>files := AList.update absolutePath size' (files st)\<rparr>;
                               st2 = (if follow then st1\<lparr>following := True\<rparr> else st1)
                           in (Inr (), st2, events))))"

section \<open>\<open>watcher.ts\<close>: the notified watcher\<close>

datatype watch_event = WatchLine path string | WatchError error

text \<open>
  The watcher's state. \<open>watcher\<close> is the set of paths that the notification library
  watches, \<open>None\<close> once closed; \<open>watchedFiles\<close> is the field \<open>files\<close> of the class.
\<close>

record log_watcher =
  watcher :: "path set option"
  filePositions :: "path \<rightharpoonup> nat"
  watchedFiles :: "path list"

fun watch_lines :: "path \<Rightarrow> string list \<Rightarrow> watch_event list" where
  "watch_lines filePath [] = []"
| "watch_lines filePath (line # lines) =
     (if truthy (trim line) then WatchLine filePath line # watch_lines filePath lines
      else watch_lines filePath lines)"

definition watch_on_data :: "path \<Rightarrow> string \<Rightarrow> string \<Rightarrow> watch_event list \<times> string" where
  "watch_on_data filePath buffer chunk =
     (let (lines, buffer1) = split_step buffer chunk
      in (watch_lines filePath lines, buffer1))"

definition watch_on_end :: "path \<Rightarrow> string \<Rightarrow> watch_event list" where
  "watch_on_end filePath buffer =
     (if truthy (trim buffer) then [WatchLine filePath buffer] else [])"

fun watch_run_stream :: "path \<Rightarrow> string \<Rightarrow> string list \<Rightarrow> stream_end \<Rightarrow> watch_event list" where
  "watch_run_stream filePath buffer [] End = watch_on_end filePath buffer"
| "watch_run_stream filePath buffer [] (Failed c) = [WatchError (SystemError c)]"
| "watch_run_stream filePath buffer (chunk # chunks) fin =
     (let (events, buffer1) = watch_on_data filePath buffer chunk
      in events @ watch_run_stream filePath buffer1 chunks fin)"

definition watch_readNewContent :: "path \<Rightarrow> nat \<Rightarrow> nat \<Rightarrow> error + read_request" where
  "watch_readNewContent filePath start end' =
     createReadStream filePath (int start) (Some (int end' - 1))"

definition watch_readNewContent_events :: "path \<Rightarrow> stream_run \<Rightarrow> watch_event list" where
  "watch_readNewContent_events filePath run = watch_run_stream filePath [] (fst run) (snd run)"

text \<open>\<open>this.filePositions.get(absolutePath) || 0\<close>\<close>

definition get_or_0 :: "(path \<rightharpoonup> nat) \<Rightarrow> path \<Rightarrow> nat" where
  "get_or_0 m p = (case m p of None \<Rightarrow> 0 | Some n \<Rightarrow> n)"

definition handleFileChange :: "(path \<Rightarrow> path) \<Rightarrow> fs \<Rightarrow> log_watcher \<Rightarrow> path
    \<Rightarrow> log_watcher \<times> watch_event list \<times> read_request list" where
  "handleFileChange resolve fs st filePath =
     (let absolutePath = resolve filePath
      in case statSync fs absolutePath of
           Inl e \<Rightarrow> (st, [WatchError e], [])
         | Inr size' \<Rightarrow>
             (let lastPosition = get_or_0 (filePositions st) absolutePath
              in if size' < lastPosition then
                   (let st1 = st\<lparr>filePositions := (filePositions st)(absolutePath \<mapsto> 0)\<rparr>
                    in case watch_readNewContent absolutePath 0 size' of
                         Inl e \<Rightarrow> (st1, [WatchError e], [])
                       | Inr rd \<Rightarrow> (st1, [], [rd]))
                 else if size' > lastPosition then
                   (case watch_readNewContent absolutePath lastPosition size' of
                      Inl e \<Rightarrow> (st, [WatchError e], [])
                    | Inr rd \<Rightarrow>
                        (st\<lparr>filePositions := (filePositions st)(absolutePath \<mapsto> size')\<rparr>, [], [rd]))
                 else (st\<lparr>filePositions := (filePositions st)(absolutePath \<mapsto> size')\<rparr>, [], [])))"

text \<open>A change notice with its stream run to the end.\<close>

definition notice :: "(path \<Rightarrow> path) \<Rightarrow> fs \<Rightarrow> io \<Rightarrow> log_watcher \<Rightarrow> path
    \<Rightarrow> log_watcher \<times> watch_event list" where
  "notice resolve fs io st filePath =
     (let (st1, events, reads) = handleFileChange resolve fs st filePath
      in (st1, events @ concat (map (\<lambda>rd. watch_readNewContent_events (rpath rd) (io rd)) reads)))"

text \<open>The constructor, \<open>addFile\<close>, \<open>removeFile\<close> and \<open>getFiles\<close>.\<close>

definition createWatcher :: "(path \<Rightarrow> path) \<Rightarrow> path list \<Rightarrow> log_watcher" where
  "createWatcher resolve fileList =
     (let resolved = map resolve fileList
      in \<lparr>watcher = Some (set resolved), filePositions = Map.empty, watchedFiles = resolved\<rparr>)"

text \<open>\<open>xs.indexOf(x)\<close>: the first index of \<open>x\<close>, or \<open>-1\<close>.\<close>

fun indexOf :: "'a list \<Rightarrow> 'a \<Rightarrow> int" where
  "indexOf [] x = - 1"
| "indexOf (y # ys) x =
     (if y = x then 0 else (let i = indexOf ys x in if i = - 1 then - 1 else i + 1))"

text \<open>\<open>xs.splice(index, 1)\<close> for an index of the array.\<close>

definition splice1 :: "'a list \<Rightarrow> int \<Rightarrow> 'a list" where
  "splice1 xs index = take (nat index) xs @ drop (nat index + 1) xs"

definition addFile :: "(path \<Rightarrow> path) \<Rightarrow> log_watcher \<Rightarrow> path \<Rightarrow> log_watcher" where
  "addFile resolve st filePath =
     (let absolutePath = resolve filePath
      in if absolutePath \<notin> set (watchedFiles st)
         then st\<lparr>watchedFiles := watchedFiles st @ [absolutePath],
                 watcher := map_option (insert absolutePath) (watcher st)\<rparr>
         else st)"

definition removeFile :: "(path \<Rightarrow> path) \<Rightarrow> log_watcher \<Rightarrow> path \<Rightarrow> log_watcher" where
  "removeFile resolve st filePath =
     (let absolutePath = resolve filePath;
          index = indexOf (watchedFiles st) absolutePath
      in if index \<noteq> - 1
         then st\<lparr>watchedFiles := splice1 (watchedFiles st) index,
                 watcher := map_option (\<lambda>w. w - {absolutePath}) (watcher st),
                 filePositions := (filePositions st)(absolutePath := None)\<rparr>
         else st)"

definition getFiles :: "log_watcher \<Rightarrow> path list" where
  "getFiles st = watchedFiles st"

section \<open>Notions used in the statements\<close>

text \<open>A line that is empty or consists of white space only.\<close>

definition is_blank :: "string \<Rightarrow> bool" where
  "is_blank s = list_all is_white_space s"

text \<open>The line events for the lines \<open>ls\<close>, numbered from \<open>n + 1\<close>.\<close>

definition numbered :: "path \<Rightarrow> nat \<Rightarrow> string list \<Rightarrow> tail_event list" where
  "numbered filePath n ls = map (\<lambda>(i, line). Line filePath line (i + 1)) (enumerate n ls)"

text \<open>
  Environments for the examples: a file system that holds one file, streams that
  deliver every request in one chunk, streams that fail before any chunk, and the
  path of a log file.
\<close>

definition fs_of :: "path \<Rightarrow> string \<Rightarrow> fs" where
  "fs_of p content = (\<lambda>q. if q = p then Inr content else Inl ENOENT)"

definition whole_io :: "fs \<Rightarrow> io" where
  "whole_io fs rd =
     (case fs (rpath rd) of
        Inl c \<Rightarrow> ([], Failed c)
      | Inr content \<Rightarrow> ([range_bytes content rd], End))"

definition failing_io :: "errcode \<Rightarrow> io" where
  "failing_io c rd = ([], Failed c)"

definition app_log :: path where
  "app_log = ''/var/log/app.log''"

text \<open>A content of 620 bytes whose last 120 bytes are two lines.\<close>

definition content_620 :: string where
  "content_620 = replicate 500 (CHR ''a'') @ ''started\<newline>'' @ replicate 111 (CHR ''b'') @ ''\<newline>''"

text \<open>A content of 80 bytes: two lines.\<close>

definition content_80 :: string where
  "content_80 = ''rotated\<newline>'' @ replicate 71 (CHR ''c'') @ ''\<newline>''"

text \<open>
  The offset at which \<open>readLastLines\<close> starts to read a file of \<open>fileSize\<close> bytes:
  its \<open>start\<close>, as a function of the size and of \<open>numLines\<close>.
\<close>

definition suffix_start :: "nat \<Rightarrow> int \<Rightarrow> int" where
  "suffix_start fileSize numLines =
     max 0 (int fileSize - min (numLines * 120) (int fileSize))"

text \<open>A content of 130 bytes: one line of 129 characters and its terminator.\<close>

definition content_130 :: string where
  "content_130 = replicate 129 (CHR ''a'') @ ''\<newline>''"

section \<open>Facts about splitting\<close>

lemma split_nl_not_Nil [simp]: "split_nl s \<noteq> []"
  by (induction s) auto

lemma split_step_eq:
  "split_step buffer chunk =
     (butlast (split_nl (buffer @ chunk)), last (split_nl (buffer @ chunk)))"
  by (simp add: split_step_def pop_def truthy_def Let_def)

lemma split_nl_append:
  "split_nl (a @ b) = butlast (split_nl a) @ split_nl (last (split_nl a) @ b)"
proof (induction a)
  case Nil
  show ?case by simp
next
  case (Cons c a)
  show ?case
  proof (cases "c = CHR 0x0A")
    case True
    with Cons show ?thesis by simp
  next
    case False
    show ?thesis
    proof (cases "split_nl a")
      case Nil
      then show ?thesis by simp
    next
      case (Cons l ls)
      note sa = this
      show ?thesis
      proof (cases ls)
        case Nil
        with sa False Cons.IH show ?thesis by simp
      next
        case (Cons l' ls')
        with sa False Cons.IH show ?thesis by simp
      qed
    qed
  qed
qed

lemma last_split_nl_no_nl: "CHR 0x0A \<notin> set (last (split_nl s))"
proof (induction s)
  case Nil
  show ?case by simp
next
  case (Cons c s)
  then show ?case
    by (cases "split_nl s"; cases "tl (split_nl s)") (auto split: if_splits)
qed

lemma split_nl_no_nl: "CHR 0x0A \<notin> set s \<Longrightarrow> split_nl s = [s]"
  by (induction s) auto

lemma last_split_nl_eq:
  "last (split_nl s) = rev (takeWhile (\<lambda>c. c \<noteq> CHR 0x0A) (rev s))"
proof (induction s)
  case Nil
  show ?case by simp
next
  case (Cons c s)
  show ?case
  proof (cases "CHR 0x0A \<in> set s")
    case True
    then have "tl (split_nl s) \<noteq> []"
      by (induction s) (auto split: if_splits)
    moreover have "takeWhile (\<lambda>c. c \<noteq> CHR 0x0A) (rev s @ [c])
        = takeWhile (\<lambda>c. c \<noteq> CHR 0x0A) (rev s)"
      using True by simp
    ultimately show ?thesis
      using Cons by (cases "split_nl s") (auto simp: last_tl)
  next
    case False
    then have s: "split_nl s = [s]" by (rule split_nl_no_nl)
    have "takeWhile (\<lambda>c. c \<noteq> CHR 0x0A) (rev s @ [c])
        = rev s @ takeWhile (\<lambda>c. c \<noteq> CHR 0x0A) [c]"
      using False by (intro takeWhile_append2) auto
    with s show ?thesis by auto
  qed
qed

lemma split_chunks_eq:
  "CHR 0x0A \<notin> set buffer \<Longrightarrow>
   split_chunks buffer chunks =
     (butlast (split_nl (buffer @ concat chunks)), last (split_nl (buffer @ concat chunks)))"
proof (induction chunks arbitrary: buffer)
  case Nil
  then show ?case by (simp add: split_nl_no_nl)
next
  case (Cons chunk chunks)
  let ?b = "last (split_nl (buffer @ chunk))"
  have nb: "CHR 0x0A \<notin> set ?b" by (rule last_split_nl_no_nl)
  have app: "split_nl ((buffer @ chunk) @ concat chunks)
      = butlast (split_nl (buffer @ chunk)) @ split_nl (?b @ concat chunks)"
    by (rule split_nl_append)
  show ?case
    using Cons.IH [OF nb] app
    by (simp add: split_step_eq butlast_append)
qed

section \<open>Facts about blank lines and the stream handlers\<close>

lemma trim_Nil_iff: "trim s = [] \<longleftrightarrow> is_blank s"
proof -
  let ?x = "dropWhile is_white_space s"
  have "trim s = [] \<longleftrightarrow> (\<forall>c \<in> set ?x. is_white_space c)"
    by (simp add: trim_def dropWhile_eq_Nil_conv)
  also have "\<dots> \<longleftrightarrow> ?x = []"
  proof
    assume all: "\<forall>c \<in> set ?x. is_white_space c"
    show "?x = []"
    proof (rule ccontr)
      assume ne: "?x \<noteq> []"
      then have "\<not> is_white_space (hd ?x)" by (rule hd_dropWhile)
      moreover from ne have "hd ?x \<in> set ?x" by simp
      ultimately show False using all by blast
    qed
  next
    assume e: "?x = []"
    show "\<forall>c \<in> set ?x. is_white_space c" unfolding e by simp
  qed
  also have "\<dots> \<longleftrightarrow> is_blank s"
    by (simp only: dropWhile_eq_Nil_conv is_blank_def list_all_iff)
  finally show ?thesis .
qed

lemma truthy_trim: "truthy (trim s) \<longleftrightarrow> \<not> is_blank s"
  by (simp add: truthy_def trim_Nil_iff)

lemma numbered_append:
  "numbered f n (xs @ ys) = numbered f n xs @ numbered f (n + length xs) ys"
  by (simp add: numbered_def enumerate_append_eq)

lemma emit_lines_eq:
  "emit_lines f n ls =
     (numbered f n (filter (\<lambda>l. \<not> is_blank l) ls), n + length (filter (\<lambda>l. \<not> is_blank l) ls))"
  by (induction ls arbitrary: n) (simp_all add: numbered_def truthy_trim)

lemma watch_lines_eq:
  "watch_lines f ls = map (WatchLine f) (filter (\<lambda>l. \<not> is_blank l) ls)"
  by (induction ls) (simp_all add: truthy_trim)

lemma on_data_eq:
  "on_data f (buffer, n) chunk =
     (numbered f n (filter (\<lambda>l. \<not> is_blank l) (butlast (split_nl (buffer @ chunk)))),
      (last (split_nl (buffer @ chunk)),
       n + length (filter (\<lambda>l. \<not> is_blank l) (butlast (split_nl (buffer @ chunk))))))"
  by (simp add: on_data_def split_step_eq emit_lines_eq)

lemma run_stream_End:
  "CHR 0x0A \<notin> set buffer \<Longrightarrow>
   run_stream f (buffer, n) chunks End =
     numbered f n (filter (\<lambda>l. \<not> is_blank l) (split_nl (buffer @ concat chunks)))"
proof (induction chunks arbitrary: buffer n)
  case Nil
  then show ?case
    by (simp add: on_end_def split_nl_no_nl truthy_trim numbered_def)
next
  case (Cons chunk chunks)
  let ?b = "last (split_nl (buffer @ chunk))"
  have nb: "CHR 0x0A \<notin> set ?b" by (rule last_split_nl_no_nl)
  have app: "split_nl ((buffer @ chunk) @ concat chunks)
      = butlast (split_nl (buffer @ chunk)) @ split_nl (?b @ concat chunks)"
    by (rule split_nl_append)
  show ?case
    using Cons.IH [OF nb] app
    by (simp add: on_data_eq numbered_append)
qed

lemma run_stream_Failed:
  "CHR 0x0A \<notin> set buffer \<Longrightarrow>
   run_stream f (buffer, n) chunks (Failed c) =
     numbered f n (filter (\<lambda>l. \<not> is_blank l) (butlast (split_nl (buffer @ concat chunks))))
     @ [Error (SystemError c)]"
proof (induction chunks arbitrary: buffer n)
  case Nil
  then show ?case
    by (simp add: on_error_def split_nl_no_nl numbered_def)
next
  case (Cons chunk chunks)
  let ?b = "last (split_nl (buffer @ chunk))"
  have nb: "CHR 0x0A \<notin> set ?b" by (rule last_split_nl_no_nl)
  have app: "split_nl ((buffer @ chunk) @ concat chunks)
      = butlast (split_nl (buffer @ chunk)) @ split_nl (?b @ concat chunks)"
    by (rule split_nl_append)
  show ?case
    using Cons.IH [OF nb] app
    by (simp add: on_data_eq numbered_append butlast_append)
qed

lemma watch_run_stream_End:
  "CHR 0x0A \<notin> set buffer \<Longrightarrow>
   watch_run_stream f buffer chunks End =
     map (WatchLine f) (filter (\<lambda>l. \<not> is_blank l) (split_nl (buffer @ concat chunks)))"
proof (induction chunks arbitrary: buffer)
  case Nil
  then show ?case
    by (simp add: watch_on_end_def split_nl_no_nl truthy_trim)
next
  case (Cons chunk chunks)
  let ?b = "last (split_nl (buffer @ chunk))"
  have nb: "CHR 0x0A \<notin> set ?b" by (rule last_split_nl_no_nl)
  have app: "split_nl ((buffer @ chunk) @ concat chunks)
      = butlast (split_nl (buffer @ chunk)) @ split_nl (?b @ concat chunks)"
    by (rule split_nl_append)
  show ?case
    using Cons.IH [OF nb] app
    by (simp add: watch_on_data_def split_step_eq watch_lines_eq)
qed

lemma watch_run_stream_Failed:
  "CHR 0x0A \<notin> set buffer \<Longrightarrow>
   watch_run_stream f buffer chunks (Failed c) =
     map (WatchLine f) (filter (\<lambda>l. \<not> is_blank l) (butlast (split_nl (buffer @ concat chunks))))
     @ [WatchError (SystemError c)]"
proof (induction chunks arbitrary: buffer)
  case Nil
  then show ?case
    by (simp add: split_nl_no_nl)
next
  case (Cons chunk chunks)
  let ?b = "last (split_nl (buffer @ chunk))"
  have nb: "CHR 0x0A \<notin> set ?b" by (rule last_split_nl_no_nl)
  have app: "split_nl ((buffer @ chunk) @ concat chunks)
      = butlast (split_nl (buffer @ chunk)) @ split_nl (?b @ concat chunks)"
    by (rule split_nl_append)
  show ?case
    using Cons.IH [OF nb] app
    by (simp add: watch_on_data_def split_step_eq watch_lines_eq butlast_append)
qed

section \<open>Facts about the polling loop\<close>

lemma check_entry_unchanged:
  "statSync fs f = Inr pos \<Longrightarrow> check_entry fs st (f, pos) = (st, [], [])"
  by (simp add: check_entry_def)

lemma check_entry_grown:
  "statSync fs f = Inr size' \<Longrightarrow> pos < size' \<Longrightarrow>
   check_entry fs st (f, pos) =
     (st\<lparr>files := AList.update f size' (files st)\<rparr>, [],
      [\<lparr>rpath = f, rstart = int pos, rend = Some (int size' - 1)\<rparr>])"
  by (simp add: check_entry_def readNewContent_def createReadStream_def)

lemma check_entry_truncated:
  "statSync fs f = Inr size' \<Longrightarrow> size' < pos \<Longrightarrow> 0 < size' \<Longrightarrow>
   check_entry fs st (f, pos) =
     (st\<lparr>files := AList.update f 0 (files st)\<rparr>, [],
      [\<lparr>rpath = f, rstart = 0, rend = Some (int size' - 1)\<rparr>])"
  by (simp add: check_entry_def readNewContent_def createReadStream_def)

lemma check_entry_output_indep:
  "snd (check_entry fs st e) = snd (check_entry fs st' e)"
  by (cases e)
    (simp add: check_entry_def check_catch_def Let_def split: sum.splits)

lemma check_entry_other:
  "fst e \<noteq> p \<Longrightarrow> map_of (files (fst (check_entry fs st e))) p = map_of (files st) p"
  by (cases e)
    (auto simp: check_entry_def check_catch_def Let_def update_conv' delete_conv'
      split: sum.splits)

lemma check_entry_reads_path:
  "rd \<in> set (snd (snd (check_entry fs st e))) \<Longrightarrow> rpath rd = fst e"
  by (cases e)
    (auto simp: check_entry_def check_catch_def Let_def readNewContent_def
      createReadStream_def split: sum.splits if_splits)

lemma check_entry_cursor_cong:
  "map_of (files st) f = map_of (files st') f \<Longrightarrow>
   map_of (files (fst (check_entry fs st (f, pos)))) f
     = map_of (files (fst (check_entry fs st' (f, pos)))) f"
  by (auto simp: check_entry_def check_catch_def Let_def update_conv' delete_conv'
      split: sum.splits)

lemma check_entries_other:
  "p \<notin> fst ` set es \<Longrightarrow> map_of (files (fst (check_entries fs es st))) p = map_of (files st) p"
proof (induction es arbitrary: st)
  case Nil
  show ?case by simp
next
  case (Cons e es)
  from Cons.prems have ne: "fst e \<noteq> p" and rest: "p \<notin> fst ` set es" by auto
  show ?case
    using Cons.IH [OF rest, of "fst (check_entry fs st e)"] check_entry_other [OF ne, of fs st]
    by (simp add: split_beta)
qed

lemma check_entries_cursor:
  "distinct (map fst es) \<Longrightarrow> (f, pos) \<in> set es \<Longrightarrow>
   map_of (files (fst (check_entries fs es st))) f
     = map_of (files (fst (check_entry fs st (f, pos)))) f"
proof (induction es arbitrary: st)
  case Nil
  then show ?case by simp
next
  case (Cons e es)
  let ?st1 = "fst (check_entry fs st e)"
  show ?case
  proof (cases "e = (f, pos)")
    case True
    with Cons.prems have "f \<notin> fst ` set es" by auto
    from check_entries_other [OF this, of fs ?st1] True show ?thesis
      by (simp add: split_beta)
  next
    case False
    with Cons.prems have mem: "(f, pos) \<in> set es" and d: "distinct (map fst es)" by auto
    from mem have "f \<in> fst ` set es" by force
    with Cons.prems(1) have ne: "fst e \<noteq> f" by auto
    have "map_of (files ?st1) f = map_of (files st) f"
      by (rule check_entry_other [OF ne])
    from check_entry_cursor_cong [OF this]
    show ?thesis
      using Cons.IH [OF d mem, of ?st1] by (simp add: split_beta)
  qed
qed

lemma check_entries_reads_other:
  "p \<notin> fst ` set es \<Longrightarrow>
   filter (\<lambda>rd. rpath rd = p) (snd (snd (check_entries fs es st))) = []"
proof (induction es arbitrary: st)
  case Nil
  show ?case by simp
next
  case (Cons e es)
  from Cons.prems have ne: "fst e \<noteq> p" and rest: "p \<notin> fst ` set es" by auto
  have "filter (\<lambda>rd. rpath rd = p) (snd (snd (check_entry fs st e))) = []"
    using check_entry_reads_path [of _ fs st e] ne by (auto simp: filter_empty_conv)
  then show ?case
    using Cons.IH [OF rest, of "fst (check_entry fs st e)"]
    by (simp add: split_beta)
qed

lemma check_entries_reads:
  "distinct (map fst es) \<Longrightarrow> (f, pos) \<in> set es \<Longrightarrow>
   filter (\<lambda>rd. rpath rd = f) (snd (snd (check_entries fs es st)))
     = snd (snd (check_entry fs st (f, pos)))"
proof (induction es arbitrary: st)
  case Nil
  then show ?case by simp
next
  case (Cons e es)
  let ?st1 = "fst (check_entry fs st e)"
  show ?case
  proof (cases "e = (f, pos)")
    case True
    with Cons.prems have "f \<notin> fst ` set es" by auto
    from check_entries_reads_other [OF this, of fs ?st1]
    have rest: "filter (\<lambda>rd. rpath rd = f) (snd (snd (check_entries fs es ?st1))) = []" .
    have "filter (\<lambda>rd. rpath rd = f) (snd (snd (check_entry fs st (f, pos))))
        = snd (snd (check_entry fs st (f, pos)))"
      using check_entry_reads_path [of _ fs st "(f, pos)"] by (auto simp: filter_id_conv)
    with rest True show ?thesis by (simp add: split_beta)
  next
    case False
    with Cons.prems have mem: "(f, pos) \<in> set es" and d: "distinct (map fst es)" by auto
    from mem have "f \<in> fst ` set es" by force
    with Cons.prems(1) have ne: "fst e \<noteq> f" by auto
    have "filter (\<lambda>rd. rpath rd = f) (snd (snd (check_entry fs st e))) = []"
      using check_entry_reads_path [of _ fs st e] ne by (auto simp: filter_empty_conv)
    moreover have "snd (check_entry fs ?st1 (f, pos)) = snd (check_entry fs st (f, pos))"
      by (rule check_entry_output_indep)
    ultimately show ?thesis
      using Cons.IH [OF d mem, of ?st1] by (simp add: split_beta)
  qed
qed

section \<open>Chunk boundaries do not change the lines\<close>

text \<open>
  C3. For every sequence of chunks fed through the splitting step with the buffer
  threaded from call to call, starting from the empty buffer, the complete lines of
  all calls together are the complete lines of one call on the concatenation of the
  chunks, and the final buffer is the part of the concatenation after its last line
  terminator. The same holds for the events: the handlers of both readers emit, for
  any chunking and either outcome of the stream, what they emit when the whole
  range arrives as one chunk.
\<close>

theorem C3_chunked_splitting:
  "split_chunks [] chunks = split_step [] (concat chunks)
   \<and> fst (split_chunks [] chunks) = butlast (split_nl (concat chunks))
   \<and> snd (split_chunks [] chunks) = rev (takeWhile (\<lambda>c. c \<noteq> CHR 0x0A) (rev (concat chunks)))
   \<and> run_stream f ([], 0) chunks fin = run_stream f ([], 0) [concat chunks] fin
   \<and> watch_run_stream f [] chunks fin = watch_run_stream f [] [concat chunks] fin"
proof -
  have nb: "CHR 0x0A \<notin> set ([] :: string)" by simp
  have a: "split_chunks [] chunks
      = (butlast (split_nl (concat chunks)), last (split_nl (concat chunks)))"
    using split_chunks_eq [OF nb, of chunks] by simp
  have b: "run_stream f ([], 0) chunks fin = run_stream f ([], 0) [concat chunks] fin"
  proof (cases fin)
    case End
    show ?thesis
      unfolding End
      using run_stream_End [OF nb, of f 0 chunks] run_stream_End [OF nb, of f 0 "[concat chunks]"]
      by (simp del: run_stream.simps)
  next
    case (Failed e)
    show ?thesis
      unfolding Failed
      using run_stream_Failed [OF nb, of f 0 chunks e]
        run_stream_Failed [OF nb, of f 0 "[concat chunks]" e]
      by (simp del: run_stream.simps)
  qed
  have c: "watch_run_stream f [] chunks fin = watch_run_stream f [] [concat chunks] fin"
  proof (cases fin)
    case End
    show ?thesis
      unfolding End
      using watch_run_stream_End [OF nb, of f chunks]
        watch_run_stream_End [OF nb, of f "[concat chunks]"]
      by (simp del: watch_run_stream.simps)
  next
    case (Failed e)
    show ?thesis
      unfolding Failed
      using watch_run_stream_Failed [OF nb, of f chunks e]
        watch_run_stream_Failed [OF nb, of f "[concat chunks]" e]
      by (simp del: watch_run_stream.simps)
  qed
  show ?thesis
    using a b c by (simp add: split_step_eq last_split_nl_eq)
qed

section \<open>Facts about a change notice and about the events of a stream\<close>

lemma handleFileChange_grown:
  "statSync fs (resolve p) = Inr size' \<Longrightarrow> get_or_0 (filePositions w) (resolve p) < size' \<Longrightarrow>
   handleFileChange resolve fs w p =
     (w\<lparr>filePositions := (filePositions w)(resolve p \<mapsto> size')\<rparr>, [],
      [\<lparr>rpath = resolve p, rstart = int (get_or_0 (filePositions w) (resolve p)),
        rend = Some (int size' - 1)\<rparr>])"
  by (simp add: handleFileChange_def watch_readNewContent_def createReadStream_def Let_def)

lemma handleFileChange_truncated:
  "statSync fs (resolve p) = Inr size' \<Longrightarrow> size' < get_or_0 (filePositions w) (resolve p) \<Longrightarrow>
   0 < size' \<Longrightarrow>
   handleFileChange resolve fs w p =
     (w\<lparr>filePositions := (filePositions w)(resolve p \<mapsto> 0)\<rparr>, [],
      [\<lparr>rpath = resolve p, rstart = 0, rend = Some (int size' - 1)\<rparr>])"
  by (simp add: handleFileChange_def watch_readNewContent_def createReadStream_def Let_def)

lemma handleFileChange_unchanged:
  "statSync fs (resolve p) = Inr size' \<Longrightarrow> get_or_0 (filePositions w) (resolve p) = size' \<Longrightarrow>
   handleFileChange resolve fs w p =
     (w\<lparr>filePositions := (filePositions w)(resolve p \<mapsto> size')\<rparr>, [], [])"
  by (simp add: handleFileChange_def Let_def)

lemma readNewContent_events_End:
  "readNewContent_events f (chunks, End) =
     numbered f 0 (filter (\<lambda>l. \<not> is_blank l) (split_nl (concat chunks)))"
  using run_stream_End [of "[]" f 0 chunks] by (simp add: readNewContent_events_def)

lemma readNewContent_events_Failed:
  "readNewContent_events f (chunks, Failed c) =
     numbered f 0 (filter (\<lambda>l. \<not> is_blank l) (butlast (split_nl (concat chunks))))
     @ [Error (SystemError c)]"
  using run_stream_Failed [of "[]" f 0 chunks c] by (simp add: readNewContent_events_def)

lemma watch_readNewContent_events_End:
  "watch_readNewContent_events f (chunks, End) =
     map (WatchLine f) (filter (\<lambda>l. \<not> is_blank l) (split_nl (concat chunks)))"
  using watch_run_stream_End [of "[]" f chunks] by (simp add: watch_readNewContent_events_def)

lemma watch_readNewContent_events_Failed:
  "watch_readNewContent_events f (chunks, Failed c) =
     map (WatchLine f) (filter (\<lambda>l. \<not> is_blank l) (butlast (split_nl (concat chunks))))
     @ [WatchError (SystemError c)]"
  using watch_run_stream_Failed [of "[]" f chunks c]
  by (simp add: watch_readNewContent_events_def)

section \<open>Growth\<close>

text \<open>
  C4. A tracked file whose stored cursor is 500 and whose size is 620: the check
  creates one stream for the file, for the bytes from 500 to 619, and stores 620;
  this holds for the polling loop over all tracked files and for the watcher's change
  handler. A stream that delivers the request delivers the bytes
  \<open>take 120 (drop 500 content)\<close> and nothing before offset 500, and the line events
  are the ones of the non-blank fragments of these bytes.
\<close>

theorem C4_growth_reads_the_delta:
  assumes content: "fs f = Inr content" and size: "length content = 620"
    and keys: "distinct (map fst (files st))" and tracked: "(f, 500) \<in> set (files st)"
    and absolute: "resolve p = f" and watched: "filePositions w f = Some 500"
    and run: "delivers fs \<lparr>rpath = f, rstart = 500, rend = Some 619\<rparr> run"
  shows "filter (\<lambda>rd. rpath rd = f) (snd (snd (checkForNewContent fs st)))
           = [\<lparr>rpath = f, rstart = 500, rend = Some 619\<rparr>]
       \<and> map_of (files (fst (checkForNewContent fs st))) f = Some 620
       \<and> handleFileChange resolve fs w p
           = (w\<lparr>filePositions := (filePositions w)(f \<mapsto> 620)\<rparr>, [],
              [\<lparr>rpath = f, rstart = 500, rend = Some 619\<rparr>])
       \<and> concat (fst run) = take 120 (drop 500 content)
       \<and> readNewContent_events f run
           = numbered f 0 (filter (\<lambda>l. \<not> is_blank l) (split_nl (take 120 (drop 500 content))))
       \<and> watch_readNewContent_events f run
           = map (WatchLine f) (filter (\<lambda>l. \<not> is_blank l) (split_nl (take 120 (drop 500 content))))"
proof -
  have stat: "statSync fs f = Inr 620"
    using content size by (simp add: statSync_def)
  have entry: "check_entry fs st (f, 500)
      = (st\<lparr>files := AList.update f 620 (files st)\<rparr>, [],
         [\<lparr>rpath = f, rstart = 500, rend = Some 619\<rparr>])"
    using check_entry_grown [OF stat, of 500 st] by simp
  have reads: "filter (\<lambda>rd. rpath rd = f) (snd (snd (checkForNewContent fs st)))
      = [\<lparr>rpath = f, rstart = 500, rend = Some 619\<rparr>]"
    unfolding checkForNewContent_def
    using check_entries_reads [OF keys tracked, of fs st] entry by simp
  have cursor: "map_of (files (fst (checkForNewContent fs st))) f = Some 620"
    unfolding checkForNewContent_def
    using check_entries_cursor [OF keys tracked, of fs st] entry by (simp add: update_conv')
  have pos: "get_or_0 (filePositions w) (resolve p) = 500"
    using absolute watched by (simp add: get_or_0_def)
  have watch: "handleFileChange resolve fs w p
      = (w\<lparr>filePositions := (filePositions w)(f \<mapsto> 620)\<rparr>, [],
         [\<lparr>rpath = f, rstart = 500, rend = Some 619\<rparr>])"
    using handleFileChange_grown [of fs resolve p 620 w] stat pos absolute by simp
  have bytes: "concat (fst run) = take 120 (drop 500 content)" and fin: "snd run = End"
    using run content by (simp_all add: delivers_def range_bytes_def)
  have run_eq: "run = (fst run, End)"
    using fin by (cases run) simp
  have ev: "readNewContent_events f run
      = numbered f 0 (filter (\<lambda>l. \<not> is_blank l) (split_nl (take 120 (drop 500 content))))"
    using readNewContent_events_End [of f "fst run"] run_eq bytes by simp
  have wev: "watch_readNewContent_events f run
      = map (WatchLine f) (filter (\<lambda>l. \<not> is_blank l) (split_nl (take 120 (drop 500 content))))"
    using watch_readNewContent_events_End [of f "fst run"] run_eq bytes by simp
  show ?thesis
    using reads cursor watch bytes ev wev by blast
qed


theorem C4_growth_reads_the_delta_witness:
  "length content_620 = 620
   \<and> map_of (files (fst (checkForNewContent (fs_of app_log content_620)
        \<lparr>files = [(app_log, 500)], following = True\<rparr>))) app_log = Some 620
   \<and> snd (snd (checkForNewContent (fs_of app_log content_620)
        \<lparr>files = [(app_log, 500)], following = True\<rparr>))
       = [\<lparr>rpath = app_log, rstart = 500, rend = Some 619\<rparr>]
   \<and> concat (fst (whole_io (fs_of app_log content_620)
        \<lparr>rpath = app_log, rstart = 500, rend = Some 619\<rparr>))
       = ''started\<newline>'' @ replicate 111 (CHR ''b'') @ ''\<newline>''"
proof -
  let ?fs = "fs_of app_log content_620"
  let ?st = "\<lparr>files = [(app_log, 500)], following = True\<rparr>"
  let ?w = "\<lparr>watcher = Some {app_log}, filePositions = [app_log \<mapsto> 500],
    watchedFiles = [app_log]\<rparr>"
  let ?rd = "\<lparr>rpath = app_log, rstart = 500, rend = Some 619\<rparr>"
  have content: "?fs app_log = Inr content_620" by (simp add: fs_of_def)
  have size: "length content_620 = 620" by (simp add: content_620_def)
  have keys: "distinct (map fst (files ?st))" by simp
  have tracked: "(app_log, 500) \<in> set (files ?st)" by simp
  have absolute: "(\<lambda>q. q) app_log = app_log" by simp
  have watched: "filePositions ?w app_log = Some 500" by simp
  have run: "delivers ?fs ?rd (whole_io ?fs ?rd)"
    by (simp add: delivers_def whole_io_def fs_of_def)
  have only: "filter (\<lambda>rd. rpath rd = app_log) (snd (snd (checkForNewContent ?fs ?st)))
      = snd (snd (checkForNewContent ?fs ?st))"
    by (simp add: checkForNewContent_def check_entry_def statSync_def fs_of_def size
        readNewContent_def createReadStream_def)
  have delta: "take 120 (drop 500 content_620)
      = ''started\<newline>'' @ replicate 111 (CHR ''b'') @ ''\<newline>''"
    by (simp add: content_620_def)
  from C4_growth_reads_the_delta [of ?fs app_log content_620 ?st "\<lambda>q. q" app_log ?w
      "whole_io ?fs ?rd", OF content size keys tracked absolute watched run]
  show ?thesis using size only delta by simp
qed

lemma split_nl_line:
  "CHR 0x0A \<notin> set s \<Longrightarrow> split_nl (s @ CHR 0x0A # t) = s # split_nl t"
  by (induction s) auto

lemma check_entries_skip_unchanged:
  "statSync fs f = Inr n \<Longrightarrow>
   check_entries fs es st = check_entries fs (filter (\<lambda>e. e \<noteq> (f, n)) es) st"
proof (induction es arbitrary: st)
  case Nil
  show ?case by simp
next
  case (Cons e es)
  show ?case
  proof (cases "e = (f, n)")
    case True
    with Cons show ?thesis by (simp add: check_entry_unchanged)
  next
    case False
    with Cons show ?thesis by simp
  qed
qed

section \<open>No change\<close>

text \<open>
  C5. When the observed size of a tracked file equals its stored cursor, the check
  creates no stream for the file, emits no event for it and leaves the cursor as it
  is: the loop body returns the state unchanged with no event and no stream, the
  whole polling loop does what it does without the entry, and the watcher's change
  handler returns the state unchanged with no event and no stream.
\<close>

theorem C5_unchanged_size_is_idle:
  assumes stat: "statSync fs f = Inr n"
    and keys: "distinct (map fst (files st))" and tracked: "(f, n) \<in> set (files st)"
    and absolute: "resolve p = f" and watched: "filePositions w f = Some n"
  shows "check_entry fs st (f, n) = (st, [], [])
       \<and> checkForNewContent fs st
           = check_entries fs (filter (\<lambda>e. e \<noteq> (f, n)) (files st)) st
       \<and> filter (\<lambda>rd. rpath rd = f) (snd (snd (checkForNewContent fs st))) = []
       \<and> map_of (files (fst (checkForNewContent fs st))) f = Some n
       \<and> handleFileChange resolve fs w p = (w, [], [])"
proof -
  have entry: "check_entry fs st (f, n) = (st, [], [])"
    by (rule check_entry_unchanged [OF stat])
  have skip: "checkForNewContent fs st
      = check_entries fs (filter (\<lambda>e. e \<noteq> (f, n)) (files st)) st"
    unfolding checkForNewContent_def by (rule check_entries_skip_unchanged [OF stat])
  have reads: "filter (\<lambda>rd. rpath rd = f) (snd (snd (checkForNewContent fs st))) = []"
    unfolding checkForNewContent_def
    using check_entries_reads [OF keys tracked, of fs st] entry by simp
  have old: "map_of (files st) f = Some n"
    using keys tracked by simp
  have cursor: "map_of (files (fst (checkForNewContent fs st))) f = Some n"
    unfolding checkForNewContent_def
    using check_entries_cursor [OF keys tracked, of fs st] entry old by simp
  have pos: "get_or_0 (filePositions w) (resolve p) = n"
    using absolute watched by (simp add: get_or_0_def)
  have same: "(filePositions w)(f \<mapsto> n) = filePositions w"
    using watched by (rule map_upd_triv)
  have watch: "handleFileChange resolve fs w p = (w, [], [])"
    using handleFileChange_unchanged [of fs resolve p n w] stat pos absolute same by simp
  show ?thesis
    using entry skip reads cursor watch by blast
qed

theorem C5_unchanged_size_is_idle_witness:
  "statSync (fs_of app_log content_80) app_log = Inr 80
   \<and> checkForNewContent (fs_of app_log content_80) \<lparr>files = [(app_log, 80)], following = True\<rparr>
       = (\<lparr>files = [(app_log, 80)], following = True\<rparr>, [], [])
   \<and> handleFileChange (\<lambda>q. q) (fs_of app_log content_80)
        \<lparr>watcher = Some {app_log}, filePositions = [app_log \<mapsto> 80], watchedFiles = [app_log]\<rparr>
        app_log
       = (\<lparr>watcher = Some {app_log}, filePositions = [app_log \<mapsto> 80],
           watchedFiles = [app_log]\<rparr>, [], [])"
proof -
  let ?fs = "fs_of app_log content_80"
  let ?st = "\<lparr>files = [(app_log, 80)], following = True\<rparr>"
  let ?w = "\<lparr>watcher = Some {app_log}, filePositions = [app_log \<mapsto> 80],
    watchedFiles = [app_log]\<rparr>"
  have stat: "statSync ?fs app_log = Inr 80"
    by (simp add: statSync_def fs_of_def content_80_def)
  have keys: "distinct (map fst (files ?st))" by simp
  have tracked: "(app_log, 80) \<in> set (files ?st)" by simp
  have absolute: "(\<lambda>q. q) app_log = app_log" by simp
  have watched: "filePositions ?w app_log = Some 80" by simp
  from C5_unchanged_size_is_idle [of ?fs app_log 80 ?st "\<lambda>q. q" app_log ?w,
      OF stat keys tracked absolute watched]
  show ?thesis using stat by simp
qed

section \<open>Truncation\<close>

text \<open>
  C2. A tracked file whose stored cursor is 500 and whose size is 80 is taken as
  truncated: the cursor is set to 0 and a stream is created for the bytes 0 to 79.
  The claim that the cursor is 80 afterwards does not hold: the truncation branch
  leaves the loop body (\<open>continue\<close> in the poller, \<open>return\<close> in the watcher) before
  the size is stored, so the cursor stays 0. The next check then sees a file that has
  grown from 0 to 80, creates a stream for the same bytes 0 to 79 and only then stores
  80: every line of the new content is emitted twice.
\<close>

theorem C2_truncation_leaves_cursor_at_0:
  "checkForNewContent (fs_of app_log content_80) \<lparr>files = [(app_log, 500)], following = True\<rparr>
     = (\<lparr>files = [(app_log, 0)], following = True\<rparr>, [],
        [\<lparr>rpath = app_log, rstart = 0, rend = Some 79\<rparr>])
   \<and> checkForNewContent (fs_of app_log content_80) \<lparr>files = [(app_log, 0)], following = True\<rparr>
     = (\<lparr>files = [(app_log, 80)], following = True\<rparr>, [],
        [\<lparr>rpath = app_log, rstart = 0, rend = Some 79\<rparr>])
   \<and> poll (fs_of app_log content_80) (whole_io (fs_of app_log content_80))
        \<lparr>files = [(app_log, 500)], following = True\<rparr>
     = (\<lparr>files = [(app_log, 0)], following = True\<rparr>,
        [Line app_log ''rotated'' 1, Line app_log (replicate 71 (CHR ''c'')) 2])
   \<and> poll (fs_of app_log content_80) (whole_io (fs_of app_log content_80))
        \<lparr>files = [(app_log, 0)], following = True\<rparr>
     = (\<lparr>files = [(app_log, 80)], following = True\<rparr>,
        [Line app_log ''rotated'' 1, Line app_log (replicate 71 (CHR ''c'')) 2])
   \<and> handleFileChange (\<lambda>q. q) (fs_of app_log content_80)
        \<lparr>watcher = Some {app_log}, filePositions = [app_log \<mapsto> 500], watchedFiles = [app_log]\<rparr>
        app_log
     = (\<lparr>watcher = Some {app_log}, filePositions = [app_log \<mapsto> 0], watchedFiles = [app_log]\<rparr>,
        [], [\<lparr>rpath = app_log, rstart = 0, rend = Some 79\<rparr>])"
proof -
  let ?fs = "fs_of app_log content_80"
  let ?rd = "\<lparr>rpath = app_log, rstart = 0, rend = Some 79\<rparr>"
  have stat: "statSync ?fs app_log = Inr 80"
    by (simp add: statSync_def fs_of_def content_80_def)
  have first: "checkForNewContent ?fs \<lparr>files = [(app_log, 500)], following = True\<rparr>
      = (\<lparr>files = [(app_log, 0)], following = True\<rparr>, [], [?rd])"
    using check_entry_truncated [OF stat, of 500 "\<lparr>files = [(app_log, 500)], following = True\<rparr>"]
    by (simp add: checkForNewContent_def)
  have second: "checkForNewContent ?fs \<lparr>files = [(app_log, 0)], following = True\<rparr>
      = (\<lparr>files = [(app_log, 80)], following = True\<rparr>, [], [?rd])"
    using check_entry_grown [OF stat, of 0 "\<lparr>files = [(app_log, 0)], following = True\<rparr>"]
    by (simp add: checkForNewContent_def)
  have bytes: "whole_io ?fs ?rd = ([content_80], End)"
    by (simp add: whole_io_def fs_of_def range_bytes_def content_80_def)
  have c_not_blank: "\<not> is_blank (replicate 71 (CHR ''c''))"
    by (simp add: is_blank_def is_white_space_def list_all_iff)
  have r_not_blank: "\<not> is_blank ''rotated''"
    by (simp add: is_blank_def is_white_space_def)
  have "split_nl content_80 = [''rotated'', replicate 71 (CHR ''c''), []]"
    using split_nl_line [of "''rotated''" "replicate 71 (CHR ''c'') @ ''\<newline>''"]
      split_nl_line [of "replicate 71 (CHR ''c'')" "[]"]
    by (simp add: content_80_def)
  then have events: "readNewContent_events app_log (whole_io ?fs ?rd)
      = [Line app_log ''rotated'' 1, Line app_log (replicate 71 (CHR ''c'')) 2]"
    using c_not_blank r_not_blank
    by (simp add: bytes readNewContent_events_End numbered_def enumerate_eq_zip is_blank_def)
  have p1: "poll ?fs (whole_io ?fs) \<lparr>files = [(app_log, 500)], following = True\<rparr>
     = (\<lparr>files = [(app_log, 0)], following = True\<rparr>,
        [Line app_log ''rotated'' 1, Line app_log (replicate 71 (CHR ''c'')) 2])"
    using events by (simp add: poll_def first)
  have p2: "poll ?fs (whole_io ?fs) \<lparr>files = [(app_log, 0)], following = True\<rparr>
     = (\<lparr>files = [(app_log, 80)], following = True\<rparr>,
        [Line app_log ''rotated'' 1, Line app_log (replicate 71 (CHR ''c'')) 2])"
    using events by (simp add: poll_def second)
  have watch: "handleFileChange (\<lambda>q. q) ?fs
        \<lparr>watcher = Some {app_log}, filePositions = [app_log \<mapsto> 500], watchedFiles = [app_log]\<rparr>
        app_log
     = (\<lparr>watcher = Some {app_log}, filePositions = [app_log \<mapsto> 0], watchedFiles = [app_log]\<rparr>,
        [], [?rd])"
    using handleFileChange_truncated [of ?fs "\<lambda>q. q" app_log 80
        "\<lparr>watcher = Some {app_log}, filePositions = [app_log \<mapsto> 500], watchedFiles = [app_log]\<rparr>"]
      stat
    by (simp add: get_or_0_def)
  show ?thesis
    using first second p1 p2 watch by blast
qed

section \<open>The carry-over at the end of a range\<close>

text \<open>
  C1, as stated, fails: at the end of the range the \<open>'end'\<close> handler of both readers
  emits the remaining buffer as a line when it is not blank. For the range \<open>abc\<close>,
  which has no line terminator and hence no completed line, one line event \<open>abc\<close>
  is emitted.
\<close>

theorem C1_carry_over_is_emitted:
  "fst (split_chunks [] [''abc'']) = []
   \<and> snd (split_chunks [] [''abc'']) = ''abc''
   \<and> readNewContent_events app_log ([''abc''], End) = [Line app_log ''abc'' 1]
   \<and> watch_readNewContent_events app_log ([''abc''], End) = [WatchLine app_log ''abc'']"
proof -
  have frags: "split_nl ''abc'' = [''abc'']"
    by (rule split_nl_no_nl) simp
  have nb: "\<not> is_blank ''abc''"
    by (simp add: is_blank_def is_white_space_def)
  have sc: "split_chunks [] [''abc''] = ([], ''abc'')"
    by (simp add: split_step_eq frags)
  have t: "readNewContent_events app_log ([''abc''], End) = [Line app_log ''abc'' 1]"
    using frags nb by (simp add: readNewContent_events_End numbered_def enumerate_eq_zip)
  have w: "watch_readNewContent_events app_log ([''abc''], End) = [WatchLine app_log ''abc'']"
    using frags nb by (simp add: watch_readNewContent_events_End)
  show ?thesis
    using sc t w by simp
qed

text \<open>
  C1, amended. When a delta read reaches the end of its range, the line events are
  those of the non-blank lines completed by a terminator in the range, in order,
  followed by one more line event for the remaining carry-over if that is not blank;
  a blank carry-over is not emitted. In the poller the line numbers count the emitted
  lines from 1.
\<close>

theorem C1_end_of_range_events:
  "readNewContent_events f (chunks, End)
     = numbered f 0
         (filter (\<lambda>l. \<not> is_blank l) (fst (split_chunks [] chunks))
          @ (if is_blank (snd (split_chunks [] chunks)) then [] else [snd (split_chunks [] chunks)]))
   \<and> watch_readNewContent_events f (chunks, End)
     = map (WatchLine f)
         (filter (\<lambda>l. \<not> is_blank l) (fst (split_chunks [] chunks))
          @ (if is_blank (snd (split_chunks [] chunks)) then [] else [snd (split_chunks [] chunks)]))"
proof -
  let ?frags = "split_nl (concat chunks)"
  have nb: "CHR 0x0A \<notin> set ([] :: string)" by simp
  have sc: "split_chunks [] chunks = (butlast ?frags, last ?frags)"
    using split_chunks_eq [OF nb, of chunks] by simp
  have "?frags = butlast ?frags @ [last ?frags]" by simp
  then have "filter (\<lambda>l. \<not> is_blank l) ?frags
      = filter (\<lambda>l. \<not> is_blank l) (butlast ?frags)
        @ (if is_blank (last ?frags) then [] else [last ?frags])"
    using filter_append [of "\<lambda>l. \<not> is_blank l" "butlast ?frags" "[last ?frags]"] by simp
  then show ?thesis
    by (simp only: readNewContent_events_End watch_readNewContent_events_End sc fst_conv snd_conv)
qed

section \<open>A read that fails\<close>

text \<open>
  C8, as stated, fails: the cursor is stored when the stream is created, before any
  byte is read, and no handler changes it later. With cursor 500, size 620 and a
  stream that fails, the error event is emitted and the cursor is 620, in both
  drivers; the next check at the same size creates no stream, so the range is not
  read again.
\<close>

theorem C8_failed_read_advances_cursor:
  "poll (fs_of app_log content_620) (failing_io EIO) \<lparr>files = [(app_log, 500)], following = True\<rparr>
     = (\<lparr>files = [(app_log, 620)], following = True\<rparr>, [Error (SystemError EIO)])
   \<and> map_of (files (fst (poll (fs_of app_log content_620) (failing_io EIO)
         \<lparr>files = [(app_log, 500)], following = True\<rparr>))) app_log \<noteq> Some 500
   \<and> checkForNewContent (fs_of app_log content_620) \<lparr>files = [(app_log, 620)], following = True\<rparr>
     = (\<lparr>files = [(app_log, 620)], following = True\<rparr>, [], [])
   \<and> notice (\<lambda>q. q) (fs_of app_log content_620) (failing_io EIO)
        \<lparr>watcher = Some {app_log}, filePositions = [app_log \<mapsto> 500], watchedFiles = [app_log]\<rparr>
        app_log
     = (\<lparr>watcher = Some {app_log}, filePositions = [app_log \<mapsto> 620], watchedFiles = [app_log]\<rparr>,
        [WatchError (SystemError EIO)])"
proof -
  let ?fs = "fs_of app_log content_620"
  have stat: "statSync ?fs app_log = Inr 620"
    by (simp add: statSync_def fs_of_def content_620_def)
  have first: "checkForNewContent ?fs \<lparr>files = [(app_log, 500)], following = True\<rparr>
      = (\<lparr>files = [(app_log, 620)], following = True\<rparr>, [],
         [\<lparr>rpath = app_log, rstart = 500, rend = Some 619\<rparr>])"
    using check_entry_grown [OF stat, of 500 "\<lparr>files = [(app_log, 500)], following = True\<rparr>"]
    by (simp add: checkForNewContent_def)
  have p: "poll ?fs (failing_io EIO) \<lparr>files = [(app_log, 500)], following = True\<rparr>
     = (\<lparr>files = [(app_log, 620)], following = True\<rparr>, [Error (SystemError EIO)])"
    by (simp add: poll_def first failing_io_def readNewContent_events_def on_error_def)
  have next_check: "checkForNewContent ?fs \<lparr>files = [(app_log, 620)], following = True\<rparr>
      = (\<lparr>files = [(app_log, 620)], following = True\<rparr>, [], [])"
    using check_entry_unchanged [OF stat, of "\<lparr>files = [(app_log, 620)], following = True\<rparr>"]
    by (simp add: checkForNewContent_def)
  have w: "notice (\<lambda>q. q) ?fs (failing_io EIO)
        \<lparr>watcher = Some {app_log}, filePositions = [app_log \<mapsto> 500], watchedFiles = [app_log]\<rparr>
        app_log
     = (\<lparr>watcher = Some {app_log}, filePositions = [app_log \<mapsto> 620], watchedFiles = [app_log]\<rparr>,
        [WatchError (SystemError EIO)])"
    using handleFileChange_grown [of ?fs "\<lambda>q. q" app_log 620
        "\<lparr>watcher = Some {app_log}, filePositions = [app_log \<mapsto> 500], watchedFiles = [app_log]\<rparr>"]
      stat
    by (simp add: notice_def get_or_0_def failing_io_def watch_readNewContent_events_def)
  show ?thesis
    unfolding p using next_check w by simp
qed

text \<open>
  C8, amended. If the stream of a delta read of the range from the stored cursor to
  the current size fails, the line events of the non-blank lines completed in the
  chunks delivered so far are followed by one error event, and the stored cursor of
  the file is the current size, not its prior value: it was advanced when the stream
  was created. A next check at the same size creates no stream, so the range is not
  retried.
\<close>

theorem C8_failed_read_events_and_cursor:
  assumes stat: "statSync fs f = Inr size'" and grown: "pos < size'"
    and keys: "distinct (map fst (files st))" and tracked: "(f, pos) \<in> set (files st)"
    and absolute: "resolve p = f" and watched: "filePositions w f = Some pos"
    and failure: "io \<lparr>rpath = f, rstart = int pos, rend = Some (int size' - 1)\<rparr> = (chunks, Failed c)"
  shows "map_of (files (fst (poll fs io st))) f = Some size'
       \<and> readNewContent_events f (chunks, Failed c)
           = numbered f 0 (filter (\<lambda>l. \<not> is_blank l) (fst (split_chunks [] chunks)))
             @ [Error (SystemError c)]
       \<and> set (readNewContent_events f (chunks, Failed c)) \<subseteq> set (snd (poll fs io st))
       \<and> check_entry fs (fst (poll fs io st)) (f, size') = (fst (poll fs io st), [], [])
       \<and> notice resolve fs io w p
           = (w\<lparr>filePositions := (filePositions w)(f \<mapsto> size')\<rparr>,
              map (WatchLine f) (filter (\<lambda>l. \<not> is_blank l) (fst (split_chunks [] chunks)))
              @ [WatchError (SystemError c)])
       \<and> handleFileChange resolve fs (fst (notice resolve fs io w p)) p
           = (fst (notice resolve fs io w p), [], [])"
proof -
  let ?rd = "\<lparr>rpath = f, rstart = int pos, rend = Some (int size' - 1)\<rparr>"
  have nb: "CHR 0x0A \<notin> set ([] :: string)" by simp
  have sc: "fst (split_chunks [] chunks) = butlast (split_nl (concat chunks))"
    using split_chunks_eq [OF nb, of chunks] by simp
  have entry: "check_entry fs st (f, pos)
      = (st\<lparr>files := AList.update f size' (files st)\<rparr>, [], [?rd])"
    by (rule check_entry_grown [OF stat grown])
  have st1: "fst (poll fs io st) = fst (checkForNewContent fs st)"
    by (simp add: poll_def split_beta)
  have cursor: "map_of (files (fst (poll fs io st))) f = Some size'"
    unfolding st1 checkForNewContent_def
    using check_entries_cursor [OF keys tracked, of fs st] entry by (simp add: update_conv')
  have ev: "readNewContent_events f (chunks, Failed c)
      = numbered f 0 (filter (\<lambda>l. \<not> is_blank l) (fst (split_chunks [] chunks)))
        @ [Error (SystemError c)]"
    by (simp add: readNewContent_events_Failed sc)
  have "filter (\<lambda>rd. rpath rd = f) (snd (snd (checkForNewContent fs st))) = [?rd]"
    unfolding checkForNewContent_def
    using check_entries_reads [OF keys tracked, of fs st] entry by simp
  then have "?rd \<in> set (filter (\<lambda>rd. rpath rd = f) (snd (snd (checkForNewContent fs st))))"
    by simp
  then have mem: "?rd \<in> set (snd (snd (checkForNewContent fs st)))"
    by simp
  have sub: "set (readNewContent_events f (chunks, Failed c)) \<subseteq> set (snd (poll fs io st))"
  proof
    fix e
    assume "e \<in> set (readNewContent_events f (chunks, Failed c))"
    then have e_in: "e \<in> set (readNewContent_events (rpath ?rd) (io ?rd))"
      using failure by simp
    have "\<exists>rd \<in> set (snd (snd (checkForNewContent fs st))).
        e \<in> set (readNewContent_events (rpath rd) (io rd))"
      using mem e_in by (rule rev_bexI)
    then show "e \<in> set (snd (poll fs io st))"
      by (simp add: poll_def split_beta)
  qed
  have idle: "check_entry fs (fst (poll fs io st)) (f, size') = (fst (poll fs io st), [], [])"
    by (rule check_entry_unchanged [OF stat])
  have gpos: "get_or_0 (filePositions w) (resolve p) = pos"
    using absolute watched by (simp add: get_or_0_def)
  have h: "handleFileChange resolve fs w p
      = (w\<lparr>filePositions := (filePositions w)(f \<mapsto> size')\<rparr>, [], [?rd])"
    using handleFileChange_grown [of fs resolve p size' w] stat grown gpos absolute by simp
  have n: "notice resolve fs io w p
      = (w\<lparr>filePositions := (filePositions w)(f \<mapsto> size')\<rparr>,
         map (WatchLine f) (filter (\<lambda>l. \<not> is_blank l) (fst (split_chunks [] chunks)))
         @ [WatchError (SystemError c)])"
    using failure by (simp add: notice_def h watch_readNewContent_events_Failed sc)
  have widle: "handleFileChange resolve fs (fst (notice resolve fs io w p)) p
      = (fst (notice resolve fs io w p), [], [])"
    unfolding n fst_conv
    using handleFileChange_unchanged [of fs resolve p size'
        "w\<lparr>filePositions := (filePositions w)(f \<mapsto> size')\<rparr>"] stat absolute
    by (simp add: get_or_0_def)
  show ?thesis
    using cursor ev sub idle n widle by blast
qed

theorem C8_failed_read_events_and_cursor_witness:
  "statSync (fs_of app_log content_620) app_log = Inr 620
   \<and> failing_io EIO \<lparr>rpath = app_log, rstart = 500, rend = Some 619\<rparr> = ([], Failed EIO)
   \<and> map_of (files (fst (poll (fs_of app_log content_620) (failing_io EIO)
        \<lparr>files = [(app_log, 500)], following = True\<rparr>))) app_log = Some 620
   \<and> readNewContent_events app_log ([], Failed EIO) = [Error (SystemError EIO)]"
proof -
  let ?fs = "fs_of app_log content_620"
  let ?st = "\<lparr>files = [(app_log, 500)], following = True\<rparr>"
  let ?w = "\<lparr>watcher = Some {app_log}, filePositions = [app_log \<mapsto> 500],
    watchedFiles = [app_log]\<rparr>"
  have stat: "statSync ?fs app_log = Inr 620"
    by (simp add: statSync_def fs_of_def content_620_def)
  have grown: "(500::nat) < 620" by simp
  have keys: "distinct (map fst (files ?st))" by simp
  have tracked: "(app_log, 500) \<in> set (files ?st)" by simp
  have absolute: "(\<lambda>q. q) app_log = app_log" by simp
  have watched: "filePositions ?w app_log = Some 500" by simp
  have failure: "failing_io EIO \<lparr>rpath = app_log, rstart = int 500, rend = Some (int 620 - 1)\<rparr>
      = ([], Failed EIO)"
    by (simp add: failing_io_def)
  from C8_failed_read_events_and_cursor [of ?fs app_log 620 500 ?st "\<lambda>q. q" app_log ?w
      "failing_io EIO" "[]" EIO, OF stat grown keys tracked absolute watched failure]
  show ?thesis using stat by (simp add: failing_io_def numbered_def)
qed

section \<open>Facts about the initial window\<close>

lemma slice_last:
  "0 \<le> k \<Longrightarrow> k \<noteq> 0 \<or> xs = [] \<Longrightarrow> slice xs (- k) = drop (length xs - nat k) xs"
  by (auto simp: slice_def Let_def max_def nat_diff_distrib')

lemma readLastLines_delivered:
  assumes content: "fs f = Inr content"
    and run: "delivers fs \<lparr>rpath = f, rstart = suffix_start (length content) n, rend = None\<rparr>
      (io \<lparr>rpath = f, rstart = suffix_start (length content) n, rend = None\<rparr>)"
  shows "readLastLines fs io f n =
     Inr (slice (filter (\<lambda>l. \<not> is_blank l)
       (split_nl (drop (nat (suffix_start (length content) n)) content))) (- n))"
proof (cases "content = []")
  case True
  with content show ?thesis
    by (simp add: readLastLines_def statSync_def slice_def is_blank_def)
next
  case False
  let ?rd = "\<lparr>rpath = f, rstart = suffix_start (length content) n, rend = None\<rparr>"
  have start: "0 \<le> suffix_start (length content) n"
    by (simp add: suffix_start_def)
  have crs: "createReadStream f (suffix_start (length content) n) None = Inr ?rd"
    using start by (simp add: createReadStream_def)
  have bytes: "concat (fst (io ?rd)) = drop (nat (suffix_start (length content) n)) content"
    and fin: "snd (io ?rd) = End"
    using run content by (simp_all add: delivers_def range_bytes_def)
  obtain chunks where io: "io ?rd = (chunks, End)"
    using fin by (cases "io ?rd") auto
  have "readLastLines fs io f n
      = Inr (slice (filter (\<lambda>line. trim line \<noteq> []) (split_nl (concat chunks))) (- n))"
    using content False crs io
    by (simp add: readLastLines_def statSync_def suffix_start_def Let_def)
  moreover have "concat chunks = drop (nat (suffix_start (length content) n)) content"
    using bytes io by simp
  ultimately show ?thesis
    by (simp add: trim_Nil_iff)
qed

section \<open>The initial window\<close>

text \<open>
  C6, as stated, fails in its first part: \<open>readLastLines\<close> never discards the first
  fragment. A file of 130 bytes that holds one line of 129 characters, read with
  \<open>n = 1\<close>, is read from offset 10, and the result is the fragment of 119 characters
  that the read begins with: the tail of a line, returned as a line.
\<close>

theorem C6_first_fragment_is_returned:
  "suffix_start (length content_130) 1 = 10
   \<and> hd (split_nl (drop 10 content_130)) = replicate 119 (CHR ''a'')
   \<and> readLastLines (fs_of app_log content_130) (whole_io (fs_of app_log content_130)) app_log 1
       = Inr [replicate 119 (CHR ''a'')]"
proof -
  let ?fs = "fs_of app_log content_130"
  let ?rd = "\<lparr>rpath = app_log, rstart = suffix_start (length content_130) 1, rend = None\<rparr>"
  have start: "suffix_start (length content_130) 1 = 10"
    by (simp add: suffix_start_def content_130_def)
  have suffix: "drop 10 content_130 = replicate 119 (CHR ''a'') @ ''\<newline>''"
    by (simp add: content_130_def)
  have frags: "split_nl (drop 10 content_130) = [replicate 119 (CHR ''a''), []]"
    using split_nl_line [of "replicate 119 (CHR ''a'')" "[]"] by (simp add: suffix)
  have content: "?fs app_log = Inr content_130"
    by (simp add: fs_of_def)
  have run: "delivers ?fs ?rd (whole_io ?fs ?rd)"
    by (simp add: delivers_def whole_io_def fs_of_def)
  have nb: "\<not> is_blank (replicate 119 (CHR ''a''))"
    by (simp add: is_blank_def is_white_space_def list_all_iff)
  have "readLastLines ?fs (whole_io ?fs) app_log 1
      = Inr (slice (filter (\<lambda>l. \<not> is_blank l) (split_nl (drop 10 content_130))) (- 1))"
    using readLastLines_delivered [of ?fs app_log content_130 1 "whole_io ?fs", OF content run]
    by (simp add: start)
  also have "\<dots> = Inr [replicate 119 (CHR ''a'')]"
    using nb by (simp add: frags slice_def is_blank_def)
  finally show ?thesis
    using start frags by simp
qed

text \<open>
  C6, amended. For \<open>n \<ge> 0\<close> and a stream that delivers the suffix of the file from the
  computed start offset, \<open>readLastLines(file, n)\<close> returns the last \<open>n\<close> non-blank
  fragments of the suffix, split at the line terminators, hence at most \<open>n\<close> lines.
  The first fragment of the suffix is treated like every other fragment, also when
  the read starts after byte 0: if it is not blank and the suffix has at most \<open>n\<close>
  non-blank fragments, it is one of the lines returned.
\<close>

theorem C6_last_lines_of_suffix:
  assumes content: "fs f = Inr content" and n: "0 \<le> n"
    and run: "delivers fs \<lparr>rpath = f, rstart = suffix_start (length content) n, rend = None\<rparr>
      (io \<lparr>rpath = f, rstart = suffix_start (length content) n, rend = None\<rparr>)"
    and ls: "ls = slice (filter (\<lambda>l. \<not> is_blank l)
      (split_nl (drop (nat (suffix_start (length content) n)) content))) (- n)"
  shows "readLastLines fs io f n = Inr ls
       \<and> length ls \<le> nat n
       \<and> (\<not> is_blank (hd (split_nl (drop (nat (suffix_start (length content) n)) content)))
          \<and> length (filter (\<lambda>l. \<not> is_blank l)
               (split_nl (drop (nat (suffix_start (length content) n)) content))) \<le> nat n
          \<longrightarrow> hd (split_nl (drop (nat (suffix_start (length content) n)) content)) \<in> set ls)"
proof -
  let ?frags = "split_nl (drop (nat (suffix_start (length content) n)) content)"
  let ?F = "filter (\<lambda>l. \<not> is_blank l) ?frags"
  have res: "readLastLines fs io f n = Inr ls"
    unfolding ls by (rule readLastLines_delivered [of fs f content n io, OF content run])
  have zero: "n = 0 \<Longrightarrow> ?F = []"
  proof -
    assume "n = 0"
    then have "nat (suffix_start (length content) n) = length content"
      by (simp add: suffix_start_def)
    then show "?F = []" by (simp add: is_blank_def)
  qed
  have drop_eq: "ls = drop (length ?F - nat n) ?F"
    unfolding ls using n zero by (intro slice_last) auto
  have len: "length ls \<le> nat n"
    unfolding drop_eq by simp
  have first: "hd ?frags \<in> set ls"
    if "\<not> is_blank (hd ?frags)" and "length ?F \<le> nat n"
  proof -
    have "hd ?frags \<in> set ?frags" by simp
    with that(1) have "hd ?frags \<in> set ?F" by simp
    moreover from that(2) have "ls = ?F" unfolding drop_eq by simp
    ultimately show ?thesis by simp
  qed
  show ?thesis
    using res len first by blast
qed

theorem C6_last_lines_of_suffix_witness:
  "readLastLines (fs_of app_log content_130) (whole_io (fs_of app_log content_130)) app_log 1
     = Inr [replicate 119 (CHR ''a'')]
   \<and> length [replicate 119 (CHR ''a'')] \<le> nat 1
   \<and> hd (split_nl (drop 10 content_130)) \<in> set [replicate 119 (CHR ''a'')]"
proof -
  let ?fs = "fs_of app_log content_130"
  let ?rd = "\<lparr>rpath = app_log, rstart = suffix_start (length content_130) 1, rend = None\<rparr>"
  have start: "suffix_start (length content_130) 1 = 10"
    by (simp add: suffix_start_def content_130_def)
  have suffix: "drop 10 content_130 = replicate 119 (CHR ''a'') @ ''\<newline>''"
    by (simp add: content_130_def)
  have frags: "split_nl (drop 10 content_130) = [replicate 119 (CHR ''a''), []]"
    using split_nl_line [of "replicate 119 (CHR ''a'')" "[]"] by (simp add: suffix)
  have nb: "\<not> is_blank (replicate 119 (CHR ''a''))"
    by (simp add: is_blank_def is_white_space_def list_all_iff)
  have F: "filter (\<lambda>l. \<not> is_blank l) (split_nl (drop 10 content_130))
      = [replicate 119 (CHR ''a'')]"
    using nb by (simp add: frags is_blank_def)
  have content: "?fs app_log = Inr content_130"
    by (simp add: fs_of_def)
  have n: "(0::int) \<le> 1" by simp
  have run: "delivers ?fs ?rd (whole_io ?fs ?rd)"
    by (simp add: delivers_def whole_io_def fs_of_def)
  have ls: "[replicate 119 (CHR ''a'')]
      = slice (filter (\<lambda>l. \<not> is_blank l)
          (split_nl (drop (nat (suffix_start (length content_130) 1)) content_130))) (- 1)"
    by (simp add: start F slice_def)
  from C6_last_lines_of_suffix [of ?fs app_log content_130 1 "whole_io ?fs"
      "[replicate 119 (CHR ''a'')]", OF content n run ls]
  show ?thesis
    using nb by (simp add: start frags)
qed

section \<open>Facts about the watch list\<close>

lemma indexOf_range: "- 1 \<le> indexOf xs x"
  by (induction xs) (auto simp: Let_def)

lemma indexOf_absent: "indexOf xs x = - 1 \<longleftrightarrow> x \<notin> set xs"
proof (induction xs)
  case Nil
  show ?case by simp
next
  case (Cons y ys)
  have "- 1 \<le> indexOf ys x" by (rule indexOf_range)
  with Cons show ?case by (auto simp: Let_def)
qed

lemma splice1_indexOf: "x \<in> set xs \<Longrightarrow> splice1 xs (indexOf xs x) = remove1 x xs"
proof (induction xs)
  case Nil
  then show ?case by simp
next
  case (Cons y ys)
  show ?case
  proof (cases "y = x")
    case True
    then show ?thesis by (simp add: splice1_def)
  next
    case False
    with Cons.prems have mem: "x \<in> set ys" by simp
    then have ne: "indexOf ys x \<noteq> - 1" by (simp add: indexOf_absent)
    have "0 \<le> indexOf ys x"
      using ne indexOf_range [of ys x] by arith
    then have "nat (indexOf ys x + 1) = Suc (nat (indexOf ys x))" by simp
    with Cons.IH [OF mem] False ne show ?thesis
      by (simp add: splice1_def Let_def)
  qed
qed

lemma addFile_listed:
  "resolve p \<in> set (watchedFiles st) \<Longrightarrow> addFile resolve st p = st"
  by (simp add: addFile_def)

lemma addFile_distinct:
  "distinct (watchedFiles st) \<Longrightarrow> distinct (watchedFiles (addFile resolve st p))"
  by (simp add: addFile_def Let_def)

lemma removeFile_unlisted:
  "resolve p \<notin> set (watchedFiles st) \<Longrightarrow> removeFile resolve st p = st"
  by (simp add: removeFile_def Let_def indexOf_absent)

lemma removeFile_distinct:
  "distinct (watchedFiles st) \<Longrightarrow> distinct (watchedFiles (removeFile resolve st p))"
  by (auto simp: removeFile_def Let_def indexOf_absent splice1_indexOf)

section \<open>Starting a tail\<close>

text \<open>
  C7. Starting a tail for a path that does not exist fails with the not-found error
  for the resolved path: the error is emitted as an error event, the promise rejects
  with it and the state is unchanged. Starting a tail for an existing file of length
  zero reads no line: \<open>readLastLines\<close> resolves with the empty list, \<open>tail\<close> emits no
  event, succeeds and stores the cursor 0.
\<close>

theorem C7_tail_missing_or_empty_file:
  "(\<not> existsSync fs (resolve p) \<longrightarrow>
      tail resolve fs io st p n follow
        = (Inl (FileNotFound (resolve p)), st, [Error (FileNotFound (resolve p))]))
   \<and> (fs (resolve p) = Inr [] \<longrightarrow>
      readLastLines fs io (resolve p) n = Inr []
      \<and> tail resolve fs io st p n follow
        = (Inr (),
           (if follow
            then st\<lparr>files := AList.update (resolve p) 0 (files st), following := True\<rparr>
            else st\<lparr>files := AList.update (resolve p) 0 (files st)\<rparr>),
           []))"
  by (simp add: tail_def readLastLines_def existsSync_def statSync_def initial_events_def
      Let_def)

theorem C7_tail_missing_or_empty_file_witness:
  "\<not> existsSync (fs_of app_log []) ''/var/log/none.log''
   \<and> tail (\<lambda>q. q) (fs_of app_log []) (whole_io (fs_of app_log []))
        \<lparr>files = [], following = False\<rparr> ''/var/log/none.log'' 10 True
       = (Inl (FileNotFound ''/var/log/none.log''), \<lparr>files = [], following = False\<rparr>,
          [Error (FileNotFound ''/var/log/none.log'')])
   \<and> fs_of app_log [] app_log = Inr []
   \<and> readLastLines (fs_of app_log []) (whole_io (fs_of app_log [])) app_log 10 = Inr []
   \<and> tail (\<lambda>q. q) (fs_of app_log []) (whole_io (fs_of app_log []))
        \<lparr>files = [], following = False\<rparr> app_log 10 True
       = (Inr (), \<lparr>files = [(app_log, 0)], following = True\<rparr>, [])"
proof -
  let ?fs = "fs_of app_log []"
  let ?st = "\<lparr>files = [], following = False\<rparr>"
  have missing: "\<not> existsSync ?fs ''/var/log/none.log''"
    by (simp add: existsSync_def fs_of_def app_log_def)
  have empty: "?fs app_log = Inr []"
    by (simp add: fs_of_def)
  from C7_tail_missing_or_empty_file [of ?fs "\<lambda>q. q" "''/var/log/none.log''" "whole_io ?fs"
      ?st 10 True]
    C7_tail_missing_or_empty_file [of ?fs "\<lambda>q. q" app_log "whole_io ?fs" ?st 10 True]
  show ?thesis
    using missing empty by simp
qed

section \<open>Blank lines\<close>

lemma numbered_line: "Line f' l k \<in> set (numbered f n ls) \<Longrightarrow> l \<in> set ls"
  by (auto simp: numbered_def in_set_enumerate_eq)

lemma set_slice: "set (slice xs k) \<subseteq> set xs"
  by (simp add: slice_def Let_def set_drop_subset)

lemma readLastLines_not_blank:
  assumes res: "readLastLines fs io f n = Inr ls" and mem: "l \<in> set ls"
  shows "\<not> is_blank l"
proof (cases "statSync fs f")
  case (Inl e)
  then have "readLastLines fs io f n = Inl e" by (simp add: readLastLines_def)
  with res show ?thesis by simp
next
  case (Inr fileSize)
  show ?thesis
  proof (cases "fileSize = 0")
    case True
    with Inr have "readLastLines fs io f n = Inr []" by (simp add: readLastLines_def)
    with res mem show ?thesis by simp
  next
    case False
    let ?start = "max 0 (int fileSize - min (n * 120) (int fileSize))"
    let ?rd = "\<lparr>rpath = f, rstart = ?start, rend = None\<rparr>"
    have crs: "createReadStream f ?start None = Inr ?rd"
      by (simp add: createReadStream_def)
    obtain chunks fin where io: "io ?rd = (chunks, fin)" by (cases "io ?rd")
    have unfolded: "readLastLines fs io f n =
        (case fin of
           End \<Rightarrow> Inr (slice (filter (\<lambda>line. trim line \<noteq> []) (split_nl (concat chunks))) (- n))
         | Failed c \<Rightarrow> Inl (SystemError c))"
      using Inr False crs io by (simp add: readLastLines_def Let_def)
    show ?thesis
    proof (cases fin)
      case End
      with unfolded res
      have "ls = slice (filter (\<lambda>line. trim line \<noteq> []) (split_nl (concat chunks))) (- n)"
        by simp
      with mem
      have "l \<in> set (slice (filter (\<lambda>line. trim line \<noteq> []) (split_nl (concat chunks))) (- n))"
        by simp
      then have "l \<in> set (filter (\<lambda>line. trim line \<noteq> []) (split_nl (concat chunks)))"
        by (rule set_slice [THEN subsetD])
      then show ?thesis by (simp add: trim_Nil_iff)
    next
      case (Failed c)
      with unfolded res show ?thesis by simp
    qed
  qed
qed

lemma initial_events_line:
  "Line f' l k \<in> set (initial_events f ls) \<Longrightarrow> l \<in> set ls"
  by (auto simp: initial_events_def)

text \<open>
  C9. A line that is empty or consists of white space only produces no line event:
  every line event of a delta read, in the poller and in the watcher, whatever the
  chunks and the outcome of the stream, carries a line that is not blank; so does
  every line that \<open>readLastLines\<close> returns and every line event that \<open>tail\<close> emits for
  the initial window.
\<close>

theorem C9_no_event_for_blank_lines:
  "(Line f' l k \<in> set (readNewContent_events f run) \<longrightarrow> \<not> is_blank l)
   \<and> (WatchLine f' l \<in> set (watch_readNewContent_events f run) \<longrightarrow> \<not> is_blank l)
   \<and> (readLastLines fs io f n = Inr ls \<and> l \<in> set ls \<longrightarrow> \<not> is_blank l)
   \<and> (Line f' l k \<in> set (snd (snd (tail resolve fs io st p n follow))) \<longrightarrow> \<not> is_blank l)"
proof -
  obtain chunks fin where run: "run = (chunks, fin)" by (cases run)
  have a: "Line f' l k \<in> set (readNewContent_events f run) \<longrightarrow> \<not> is_blank l"
  proof
    assume ev: "Line f' l k \<in> set (readNewContent_events f run)"
    have "\<exists>ls'. Line f' l k \<in> set (numbered f 0 (filter (\<lambda>l. \<not> is_blank l) ls'))"
    proof (cases fin)
      case End
      with ev run show ?thesis
        by (simp only: readNewContent_events_End) blast
    next
      case (Failed c)
      with ev run show ?thesis
        by (simp only: readNewContent_events_Failed) auto
    qed
    then obtain ls' where "Line f' l k \<in> set (numbered f 0 (filter (\<lambda>l. \<not> is_blank l) ls'))" ..
    then have "l \<in> set (filter (\<lambda>l. \<not> is_blank l) ls')" by (rule numbered_line)
    then show "\<not> is_blank l" by simp
  qed
  have b: "WatchLine f' l \<in> set (watch_readNewContent_events f run) \<longrightarrow> \<not> is_blank l"
  proof
    assume ev: "WatchLine f' l \<in> set (watch_readNewContent_events f run)"
    have "\<exists>ls'. WatchLine f' l \<in> set (map (WatchLine f) (filter (\<lambda>l. \<not> is_blank l) ls'))"
    proof (cases fin)
      case End
      with ev run show ?thesis
        by (simp only: watch_readNewContent_events_End) blast
    next
      case (Failed c)
      with ev run show ?thesis
        by (simp only: watch_readNewContent_events_Failed) auto
    qed
    then obtain ls' where
      "WatchLine f' l \<in> set (map (WatchLine f) (filter (\<lambda>l. \<not> is_blank l) ls'))" ..
    then show "\<not> is_blank l" by auto
  qed
  have c: "readLastLines fs io f n = Inr ls \<and> l \<in> set ls \<longrightarrow> \<not> is_blank l"
    using readLastLines_not_blank by blast
  have d: "Line f' l k \<in> set (snd (snd (tail resolve fs io st p n follow))) \<longrightarrow> \<not> is_blank l"
  proof
    assume ev: "Line f' l k \<in> set (snd (snd (tail resolve fs io st p n follow)))"
    have ex: "existsSync fs (resolve p)"
    proof (rule ccontr)
      assume "\<not> existsSync fs (resolve p)"
      with ev show False by (simp add: tail_def Let_def)
    qed
    obtain lastLines where res: "readLastLines fs io (resolve p) n = Inr lastLines"
    proof (cases "readLastLines fs io (resolve p) n")
      case (Inl e)
      with ev ex have False by (simp add: tail_def Let_def)
      then show ?thesis ..
    next
      case (Inr lastLines)
      then show ?thesis by (rule that)
    qed
    have mem: "Line f' l k \<in> set (initial_events (resolve p) lastLines)"
    proof (cases "statSync fs (resolve p)")
      case (Inl e)
      with ev ex res show ?thesis by (simp add: tail_def Let_def)
    next
      case (Inr size')
      with ev ex res show ?thesis by (simp add: tail_def Let_def)
    qed
    from mem have "l \<in> set lastLines" by (rule initial_events_line)
    with res show "\<not> is_blank l" by (rule readLastLines_not_blank)
  qed
  show ?thesis
    using a b c d by blast
qed

theorem C9_no_event_for_blank_lines_witness:
  "readNewContent_events app_log ([''ok\<newline>  \<newline>''], End) = [Line app_log ''ok'' 1]
   \<and> watch_readNewContent_events app_log ([''ok\<newline>  \<newline>''], End) = [WatchLine app_log ''ok'']
   \<and> readLastLines (fs_of app_log ''ok\<newline>  \<newline>'')
         (whole_io (fs_of app_log ''ok\<newline>  \<newline>'')) app_log 10 = Inr [''ok'']
   \<and> snd (snd (tail (\<lambda>q. q) (fs_of app_log ''ok\<newline>  \<newline>'')
         (whole_io (fs_of app_log ''ok\<newline>  \<newline>''))
         \<lparr>files = [], following = False\<rparr> app_log 10 False)) = [Line app_log ''ok'' 1]
   \<and> is_blank ''  ''
   \<and> \<not> is_blank ''ok''"
proof -
  let ?fs = "fs_of app_log ''ok\<newline>  \<newline>''"
  let ?run = "([''ok\<newline>  \<newline>''], End)"
  let ?st = "\<lparr>files = [], following = False\<rparr>"
  have frags: "split_nl ''ok\<newline>  \<newline>'' = [''ok'', ''  '', []]"
    by simp
  have blank: "is_blank ''  ''" "is_blank []"
    by (simp_all add: is_blank_def is_white_space_def)
  have ok: "\<not> is_blank ''ok''"
    by (simp add: is_blank_def is_white_space_def)
  have t: "readNewContent_events app_log ?run = [Line app_log ''ok'' 1]"
    using blank ok by (simp add: readNewContent_events_End frags numbered_def enumerate_eq_zip)
  have w: "watch_readNewContent_events app_log ?run = [WatchLine app_log ''ok'']"
    using blank ok by (simp add: watch_readNewContent_events_End frags)
  have content: "?fs app_log = Inr ''ok\<newline>  \<newline>''"
    by (simp add: fs_of_def)
  have start: "suffix_start (length ''ok\<newline>  \<newline>'') 10 = 0"
    by (simp add: suffix_start_def)
  have run: "delivers ?fs \<lparr>rpath = app_log, rstart = suffix_start (length ''ok\<newline>  \<newline>'') 10,
      rend = None\<rparr>
    (whole_io ?fs \<lparr>rpath = app_log, rstart = suffix_start (length ''ok\<newline>  \<newline>'') 10,
      rend = None\<rparr>)"
    by (simp add: delivers_def whole_io_def fs_of_def)
  have suffix: "drop (nat (suffix_start (length ''ok\<newline>  \<newline>'') 10)) ''ok\<newline>  \<newline>''
      = ''ok\<newline>  \<newline>''"
    by (simp only: start) simp
  have F: "filter (\<lambda>l. \<not> is_blank l) (split_nl ''ok\<newline>  \<newline>'') = [''ok'']"
    unfolding frags using blank ok by simp
  have "slice [''ok''] (- 10) = [''ok'']"
    by (simp add: slice_def)
  with readLastLines_delivered [of ?fs app_log "''ok\<newline>  \<newline>''" 10 "whole_io ?fs",
      OF content run]
  have r: "readLastLines ?fs (whole_io ?fs) app_log 10 = Inr [''ok'']"
    by (simp only: suffix F)
  have i: "snd (snd (tail (\<lambda>q. q) ?fs (whole_io ?fs) ?st app_log 10 False))
      = [Line app_log ''ok'' 1]"
    using r content
    by (simp add: tail_def existsSync_def statSync_def initial_events_def Let_def
        del: split_nl.simps)
  have m1: "Line app_log ''ok'' 1 \<in> set (readNewContent_events app_log ?run)"
    using t by simp
  have m2: "WatchLine app_log ''ok'' \<in> set (watch_readNewContent_events app_log ?run)"
    using w by simp
  have m3: "readLastLines ?fs (whole_io ?fs) app_log 10 = Inr [''ok''] \<and> ''ok'' \<in> set [''ok'']"
    using r by simp
  have m4: "Line app_log ''ok'' 1
      \<in> set (snd (snd (tail (\<lambda>q. q) ?fs (whole_io ?fs) ?st app_log 10 False)))"
    using i by simp
  from C9_no_event_for_blank_lines [of app_log "''ok''" 1 app_log ?run ?fs "whole_io ?fs"
      10 "[''ok'']" "\<lambda>q. q" ?st app_log False] m1 m2 m3 m4
  have "\<not> is_blank ''ok''" by blast
  then show ?thesis
    using t w r i blank by simp
qed

section \<open>The watch list\<close>

text \<open>
  C10. \<open>addFile\<close> on a listed path changes nothing, \<open>removeFile\<close> on an unlisted path
  changes nothing, and both keep a list without duplicates free of them (the lemmas
  above). The list is nevertheless not always free of duplicates: the constructor
  stores the resolved paths it is given without the check that \<open>addFile\<close> makes. A
  watcher created for the same path twice lists it twice; \<open>removeFile\<close> then removes
  one entry and stops watching the path, so that \<open>getFiles\<close> still returns a path
  that is no longer watched, and \<open>addFile\<close> does not watch it again.
\<close>

theorem C10_constructor_keeps_duplicates:
  "getFiles (createWatcher (\<lambda>q. q) [app_log, app_log]) = [app_log, app_log]
   \<and> \<not> distinct (getFiles (createWatcher (\<lambda>q. q) [app_log, app_log]))
   \<and> getFiles (removeFile (\<lambda>q. q) (createWatcher (\<lambda>q. q) [app_log, app_log]) app_log)
       = [app_log]
   \<and> watcher (removeFile (\<lambda>q. q) (createWatcher (\<lambda>q. q) [app_log, app_log]) app_log)
       = Some {}
   \<and> watcher (addFile (\<lambda>q. q)
        (removeFile (\<lambda>q. q) (createWatcher (\<lambda>q. q) [app_log, app_log]) app_log) app_log)
       = Some {}"
  by (simp add: getFiles_def createWatcher_def removeFile_def addFile_def splice1_def Let_def)

end
